theory Spec2Isabelle
  imports Main "HOL-Library.AList" "HOL-Library.Log_Nat"
begin


section \<open>Strings and errors\<close>

text \<open>
  A Python \<^verbatim>\<open>str\<close> is a list of code points; \<open>str\<close> writes a literal.
\<close>

type_synonym ustr = "nat list"

definition str :: "string \<Rightarrow> ustr" where
  "str s = map of_char s"

text \<open>
  The exceptions the functions of \<^verbatim>\<open>main.py\<close> can raise. A \<^verbatim>\<open>KeyError\<close> carries
  the missing key. A function that can raise returns \<open>error + 'a\<close>, \<open>Inl\<close> being the
  exception; \<open>bnd\<close> sequences two such computations in evaluation order.
  \<open>Unmodelled\<close> is no exception of Python: it marks a run that leaves the floats the
  model represents (a sum overflows to an infinity, or a colour component is so large
  that a product could), about which the model says nothing.
\<close>

datatype error =
  ValueError | KeyError ustr | IndexError | ZeroDivisionError | OverflowError | Unmodelled

definition bnd :: "error + 'a \<Rightarrow> ('a \<Rightarrow> error + 'b) \<Rightarrow> error + 'b" where
  "bnd m f = (case m of Inl e \<Rightarrow> Inl e | Inr v \<Rightarrow> f v)"

declare bnd_def [code_unfold]

section \<open>Numbers\<close>

text \<open>
  A Python \<^verbatim>\<open>float\<close> is an IEEE binary64 number. It is modelled by the rational number it
  denotes; every arithmetic operation computes the exact rational result and rounds it
  to the nearest number with a 53-bit significand, ties to even (\<open>rnd\<close>). Only finite
  floats are represented. The upper end of the exponent range is modelled where it can be
  reached: the conversion of an \<^verbatim>\<open>int\<close> raises \<^verbatim>\<open>OverflowError\<close>, and a sum that
  overflows ends the run as \<open>Unmodelled\<close>. The lower end is not modelled: sums and
  remainders never round there, and in the colour conversions it affects only values
  below \<open>2 powi (- 1000)\<close>, which cannot change the integer part of 255 times a value. The
  sign of zero is never observed by this program.
\<close>

definition ilog2 :: "rat \<Rightarrow> int" where
  \<comment> \<open>for \<open>0 < x\<close>, the exponent \<open>e\<close> with \<open>2 powi e \<le> x < 2 powi (e + 1)\<close>\<close>
  "ilog2 x = (if 1 \<le> x then bitlen \<lfloor>x\<rfloor> - 1 else - bitlen (\<lceil>1 / x\<rceil> - 1))"

definition rhe :: "rat \<Rightarrow> int" where
  \<comment> \<open>nearest integer, ties to the even one\<close>
  "rhe y = (let f = \<lfloor>y\<rfloor>; d = y - of_int f in
     if d < 1 / 2 then f else if 1 / 2 < d then f + 1 else if even f then f else f + 1)"

definition rnd :: "rat \<Rightarrow> rat" where
  "rnd x = (if x = 0 then 0 else
     let u = 2 powi (ilog2 \<bar>x\<bar> - 52) in of_int (rhe (x / u)) * u)"

definition trunc :: "rat \<Rightarrow> int" where
  \<comment> \<open>\<^verbatim>\<open>int(x)\<close> of a float: rounding towards zero\<close>
  "trunc x = (if 0 \<le> x then \<lfloor>x\<rfloor> else - \<lfloor>- x\<rfloor>)"

definition frem :: "rat \<Rightarrow> rat \<Rightarrow> rat" where
  \<comment> \<open>\<^verbatim>\<open>x % w\<close> on floats, \<open>w \<noteq> 0\<close>: C's exact \<^verbatim>\<open>fmod\<close>, then \<open>w\<close> added (and rounded)
      when the remainder is non-zero and its sign differs from the sign of \<open>w\<close>\<close>
  "frem x w = (let m = x - of_int (trunc (x / w)) * w in
     if m \<noteq> 0 \<and> ((w < 0) \<noteq> (m < 0)) then rnd (m + w) else m)"

definition fdiv :: "rat \<Rightarrow> rat \<Rightarrow> error + rat" where
  "fdiv x y = (if y = 0 then Inl ZeroDivisionError else Inr (rnd (x / y)))"

text \<open>
  The components of an HSL triple are \<^verbatim>\<open>int\<close> or \<^verbatim>\<open>float\<close>: \<^verbatim>\<open>rgb_to_hsl\<close> returns floats,
  the semantic and surface colours are written with integer literals, and \<^verbatim>\<open>max\<close> and
  \<^verbatim>\<open>min\<close> return whichever argument wins.
\<close>

datatype pynum = PInt int | PFloat rat

fun num_val :: "pynum \<Rightarrow> rat" where
  "num_val (PInt n) = of_int n"
| "num_val (PFloat x) = x"

definition float_of_int :: "int \<Rightarrow> error + rat" where
  \<comment> \<open>\<^verbatim>\<open>OverflowError: int too large to convert to float\<close>\<close>
  "float_of_int n = (let x = rnd (of_int n) in
     if 2 ^ 1024 \<le> \<bar>x\<bar> then Inl OverflowError else Inr x)"

fun to_float :: "pynum \<Rightarrow> error + rat" where
  "to_float (PInt n) = float_of_int n"
| "to_float (PFloat x) = Inr x"

definition overflows :: "rat \<Rightarrow> bool" where
  \<comment> \<open>the rounded value \<open>x\<close> is \<open>2 ^ 1024\<close> or more in magnitude\<close>
  "overflows x = (x \<noteq> 0 \<and> 1024 \<le> ilog2 \<bar>x\<bar>)"

definition float_sum :: "rat \<Rightarrow> rat \<Rightarrow> error + rat" where
  \<comment> \<open>\<^verbatim>\<open>x + y\<close> on floats; an infinite sum is not followed\<close>
  "float_sum x y = (let z = rnd (x + y) in if overflows z then Inl Unmodelled else Inr z)"

fun py_add :: "pynum \<Rightarrow> pynum \<Rightarrow> error + pynum" where
  "py_add (PInt a) (PInt b) = Inr (PInt (a + b))"
| "py_add a b =
     bnd (to_float a) (\<lambda>x. bnd (to_float b) (\<lambda>y. bnd (float_sum x y) (\<lambda>z. Inr (PFloat z))))"

fun py_mod :: "pynum \<Rightarrow> int \<Rightarrow> pynum" where
  \<comment> \<open>\<^verbatim>\<open>a % n\<close> for a non-zero integer literal \<open>n\<close> that converts to a float exactly\<close>
  "py_mod (PInt a) n = PInt (a mod n)"
| "py_mod (PFloat x) n = PFloat (frem x (of_int n))"

definition py_min :: "pynum \<Rightarrow> pynum \<Rightarrow> pynum" where
  \<comment> \<open>\<^verbatim>\<open>min(a, b)\<close>: the first argument unless the second is smaller\<close>
  "py_min a b = (if num_val b < num_val a then b else a)"

definition py_max :: "pynum \<Rightarrow> pynum \<Rightarrow> pynum" where
  "py_max a b = (if num_val a < num_val b then b else a)"

section \<open>Hex strings\<close>

text \<open>
  \<open>int16\<close> is \<^verbatim>\<open>int(s, 16)\<close>. A code point from 127 on is first replaced: a Unicode
  space by a blank, a Unicode decimal digit by its ASCII digit, and any other makes the
  parse fail. Then optional blanks, a sign, a \<^verbatim>\<open>0x\<close> prefix, hex digits with single
  underscores between them, and optional blanks are read, and nothing may remain.
  The tables are those of CPython 3.11 (Unicode 14): the decimal digits come in blocks of
  ten consecutive code points for the digits 0 to 9, listed by their first code point.
\<close>

definition digit_blocks :: "nat list" where
  "digit_blocks =
    [1632, 1776, 1984, 2406, 2534, 2662, 2790, 2918, 3046, 3174, 3302, 3430, 3558,
     3664, 3792, 3872, 4160, 4240, 6112, 6160, 6470, 6608, 6784, 6800, 6992, 7088,
     7232, 7248, 42528, 43216, 43264, 43472, 43504, 43600, 44016, 65296, 66720, 68912,
     69734, 69872, 69942, 70096, 70384, 70736, 70864, 71248, 71360, 71472, 71904,
     72016, 72784, 73040, 73120, 92768, 92864, 93008, 120782, 120792, 120802, 120812,
     120822, 123200, 123632, 125264, 130032]"

definition unicode_decimal :: "nat \<Rightarrow> nat option" where
  "unicode_decimal c =
     (case filter (\<lambda>b. b \<le> c \<and> c < b + 10) digit_blocks of [] \<Rightarrow> None | b # _ \<Rightarrow> Some (c - b))"

definition unicode_space :: "nat \<Rightarrow> bool" where
  \<comment> \<open>the white space from 127 on\<close>
  "unicode_space c =
     (c = 133 \<or> c = 160 \<or> c = 5760 \<or> (8192 \<le> c \<and> c \<le> 8202) \<or> c = 8232 \<or> c = 8233
      \<or> c = 8239 \<or> c = 8287 \<or> c = 12288)"

definition py_isspace :: "nat \<Rightarrow> bool" where
  \<comment> \<open>the ASCII white space: tab, line feed, vertical tab, form feed, carriage return, blank\<close>
  "py_isspace c = ((9 \<le> c \<and> c \<le> 13) \<or> c = 32)"

definition digit_value :: "nat \<Rightarrow> int option" where
  \<comment> \<open>\<^verbatim>\<open>0\<close> to \<^verbatim>\<open>9\<close>, \<^verbatim>\<open>a\<close> to \<^verbatim>\<open>f\<close>, \<^verbatim>\<open>A\<close> to \<^verbatim>\<open>F\<close>\<close>
  "digit_value c =
     (if 48 \<le> c \<and> c \<le> 57 then Some (int c - 48)
      else if 97 \<le> c \<and> c \<le> 102 then Some (int c - 87)
      else if 65 \<le> c \<and> c \<le> 70 then Some (int c - 55)
      else None)"

definition to_ascii_char :: "nat \<Rightarrow> nat option" where
  "to_ascii_char c =
     (if c < 127 then Some c
      else if unicode_space c then Some 32
      else map_option (\<lambda>d. 48 + d) (unicode_decimal c))"

fun to_ascii :: "ustr \<Rightarrow> ustr option" where
  "to_ascii [] = Some []"
| "to_ascii (c # cs) =
     (case to_ascii_char c of None \<Rightarrow> None | Some a \<Rightarrow> map_option ((#) a) (to_ascii cs))"

fun scan_digits :: "ustr \<Rightarrow> int \<Rightarrow> bool \<Rightarrow> bool \<Rightarrow> (int \<times> ustr) option" where
  \<comment> \<open>rest, value so far, whether a digit was read, whether the last character was \<^verbatim>\<open>_\<close>\<close>
  "scan_digits [] v seen us = (if seen \<and> \<not> us then Some (v, []) else None)"
| "scan_digits (c # cs) v seen us =
     (case digit_value c of
        Some d \<Rightarrow> scan_digits cs (16 * v + d) True False
      | None \<Rightarrow>
          if c = 95 then (if us then None else scan_digits cs v seen True)
          else if seen \<and> \<not> us then Some (v, c # cs) else None)"

definition skip_prefix :: "ustr \<Rightarrow> ustr" where
  \<comment> \<open>\<^verbatim>\<open>0x\<close> or \<^verbatim>\<open>0X\<close>, and one underscore after it\<close>
  "skip_prefix s = (case s of
       a # b # r \<Rightarrow>
         if a = 48 \<and> (b = 120 \<or> b = 88)
         then (case r of c # r' \<Rightarrow> if c = 95 then r' else r | [] \<Rightarrow> r)
         else s
     | _ \<Rightarrow> s)"

definition long_from_string :: "ustr \<Rightarrow> error + int" where
  \<comment> \<open>the parse of the replaced string; 43, 45 and 95 are \<^verbatim>\<open>+\<close>, \<^verbatim>\<open>-\<close> and \<^verbatim>\<open>_\<close>\<close>
  "long_from_string t =
     (let t1 = dropWhile py_isspace t;
          neg = (case t1 of c # _ \<Rightarrow> c = 45 | [] \<Rightarrow> False);
          t2 = (case t1 of c # r \<Rightarrow> if c = 43 \<or> c = 45 then r else t1 | [] \<Rightarrow> t1);
          t3 = skip_prefix t2
      in if (case t3 of c # _ \<Rightarrow> c = 95 | [] \<Rightarrow> False) then Inl ValueError
         else (case scan_digits t3 0 False False of
                 None \<Rightarrow> Inl ValueError
               | Some (v, r) \<Rightarrow>
                   if dropWhile py_isspace r = [] then Inr (if neg then - v else v)
                   else Inl ValueError))"

definition int16 :: "ustr \<Rightarrow> error + int" where
  "int16 s = (case to_ascii s of None \<Rightarrow> Inl ValueError | Some t \<Rightarrow> long_from_string t)"

definition hex_to_rgb :: "ustr \<Rightarrow> error + (int \<times> int \<times> int)" where
  "hex_to_rgb hex_color =
     bnd (int16 (take 2 (drop 1 hex_color))) (\<lambda>r.
     bnd (int16 (take 2 (drop 3 hex_color))) (\<lambda>g.
     bnd (int16 (take 2 (drop 5 hex_color))) (\<lambda>b. Inr (r, g, b))))"

definition hexchar :: "nat \<Rightarrow> nat" where
  \<comment> \<open>the lowercase hex digit of a value below 16\<close>
  "hexchar d = (if d < 10 then 48 + d else 87 + d)"

fun hexstr :: "nat \<Rightarrow> ustr" where
  "hexstr n = (if n < 16 then [hexchar n] else hexstr (n div 16) @ [hexchar (n mod 16)])"

declare hexstr.simps [simp del]

definition fmt02x :: "int \<Rightarrow> ustr" where
  \<comment> \<open>the format \<^verbatim>\<open>:02x\<close>: lowercase hex, zero-padded to width 2, the sign counted\<close>
  "fmt02x n = (if n < 0 then 45 # hexstr (nat (- n))
               else let d = hexstr (nat n) in if length d < 2 then 48 # d else d)"

definition rgb_to_hex :: "int \<times> int \<times> int \<Rightarrow> ustr" where
  \<comment> \<open>35 is \<^verbatim>\<open>#\<close>\<close>
  "rgb_to_hex rgb = (case rgb of (r, g, b) \<Rightarrow> 35 # fmt02x r @ fmt02x g @ fmt02x b)"

section \<open>Colour spaces\<close>

text \<open>
  \<^verbatim>\<open>colorsys.rgb_to_hls\<close>, \<^verbatim>\<open>colorsys.hls_to_rgb\<close> and \<^verbatim>\<open>colorsys._v\<close> of the Python
  standard library (CPython 3.11), on floats. A division by a variable raises
  \<^verbatim>\<open>ZeroDivisionError\<close> at zero; a division or remainder by a non-zero literal cannot raise.
\<close>

type_synonym hsl = "pynum \<times> pynum \<times> pynum"

definition clrs_rgb_to_hls :: "rat \<Rightarrow> rat \<Rightarrow> rat \<Rightarrow> error + (rat \<times> rat \<times> rat)" where
  "clrs_rgb_to_hls r g b =
     (let maxc = max r (max g b);
          minc = min r (min g b);
          sumc = rnd (maxc + minc);
          rangec = rnd (maxc - minc);
          l = rnd (sumc / 2)
      in if minc = maxc then Inr (0, l, 0)
         else
           bnd (if l \<le> 1 / 2 then fdiv rangec sumc
                else fdiv rangec (rnd (rnd (2 - maxc) - minc))) (\<lambda>s.
           bnd (fdiv (rnd (maxc - r)) rangec) (\<lambda>rc.
           bnd (fdiv (rnd (maxc - g)) rangec) (\<lambda>gc.
           bnd (fdiv (rnd (maxc - b)) rangec) (\<lambda>bc.
             let h = (if r = maxc then rnd (bc - gc)
                      else if g = maxc then rnd (rnd (2 + rc) - bc)
                      else rnd (rnd (4 + gc) - rc))
             in Inr (frem (rnd (h / 6)) 1, l, s))))))"

definition ONE_THIRD :: rat where "ONE_THIRD = rnd (1 / 3)"
definition ONE_SIXTH :: rat where "ONE_SIXTH = rnd (1 / 6)"
definition TWO_THIRD :: rat where "TWO_THIRD = rnd (2 / 3)"

definition clrs_v :: "rat \<Rightarrow> rat \<Rightarrow> rat \<Rightarrow> rat" where
  "clrs_v m1 m2 hue0 =
     (let hue = frem hue0 1
      in if hue < ONE_SIXTH then rnd (m1 + rnd (rnd (rnd (m2 - m1) * hue) * 6))
         else if hue < 1 / 2 then m2
         else if hue < TWO_THIRD
              then rnd (m1 + rnd (rnd (rnd (m2 - m1) * rnd (TWO_THIRD - hue)) * 6))
         else m1)"

definition clrs_hls_to_rgb :: "rat \<Rightarrow> rat \<Rightarrow> rat \<Rightarrow> rat \<times> rat \<times> rat" where
  "clrs_hls_to_rgb h l s =
     (if s = 0 then (l, l, l)
      else
        let m2 = (if l \<le> 1 / 2 then rnd (l * rnd (1 + s)) else rnd (rnd (l + s) - rnd (l * s)));
            m1 = rnd (rnd (2 * l) - m2)
        in (clrs_v m1 m2 (rnd (h + ONE_THIRD)), clrs_v m1 m2 h, clrs_v m1 m2 (rnd (h - ONE_THIRD))))"

definition rgb_to_hsl :: "int \<times> int \<times> int \<Rightarrow> error + hsl" where
  "rgb_to_hsl rgb = (case rgb of (r0, g0, b0) \<Rightarrow>
     bnd (float_of_int r0) (\<lambda>r1.
     bnd (float_of_int g0) (\<lambda>g1.
     bnd (float_of_int b0) (\<lambda>b1.
     bnd (clrs_rgb_to_hls (rnd (r1 / 255)) (rnd (g1 / 255)) (rnd (b1 / 255))) (\<lambda>(h, l, s).
       Inr (PFloat (rnd (h * 360)), PFloat (rnd (s * 100)), PFloat (rnd (l * 100))))))))"

definition huge :: "rat \<Rightarrow> bool" where
  \<comment> \<open>\<open>2 ^ 500\<close> or more in magnitude\<close>
  "huge x = (x \<noteq> 0 \<and> 500 \<le> ilog2 \<bar>x\<bar>)"

text \<open>
  \<^verbatim>\<open>hsl_to_rgb\<close> is followed only on a saturation and a lightness below \<open>2 ^ 500\<close> in
  magnitude, where no product of the conversion can overflow.
\<close>

definition hsl_to_rgb :: "hsl \<Rightarrow> error + (int \<times> int \<times> int)" where
  "hsl_to_rgb hsl = (case hsl of (h0, s0, l0) \<Rightarrow>
     bnd (to_float h0) (\<lambda>h1.
     bnd (to_float s0) (\<lambda>s1.
     bnd (to_float l0) (\<lambda>l1.
       if huge s1 \<or> huge l1 then Inl Unmodelled
       else
         case clrs_hls_to_rgb (rnd (h1 / 360)) (rnd (l1 / 100)) (rnd (s1 / 100)) of
           (r, g, b) \<Rightarrow>
             Inr (trunc (rnd (r * 255)), trunc (rnd (g * 255)), trunc (rnd (b * 255)))))))"

section \<open>Adjustment and harmony\<close>

definition adjust_hsl :: "hsl \<Rightarrow> int \<Rightarrow> int \<Rightarrow> int \<Rightarrow> error + hsl" where
  "adjust_hsl hsl hue_shift saturation_adjust lightness_adjust = (case hsl of (h, s, l) \<Rightarrow>
     bnd (py_add h (PInt hue_shift)) (\<lambda>h1.
     bnd (py_add s (PInt saturation_adjust)) (\<lambda>s1.
     bnd (py_add l (PInt lightness_adjust)) (\<lambda>l1.
       Inr (py_mod h1 360,
            py_max (PInt 0) (py_min (PInt 100) s1),
            py_max (PInt 0) (py_min (PInt 100) l1))))))"

text \<open>
  The dictionary \<^verbatim>\<open>harmonies\<close> is built whole (all seven hue expressions are evaluated,
  in order) before the scheme is looked up in it.
\<close>

definition generate_harmony_colors :: "hsl \<Rightarrow> ustr \<Rightarrow> error + hsl list" where
  "generate_harmony_colors base_hsl harmony_type = (case base_hsl of (base_hue, s, l) \<Rightarrow>
     bnd (py_add base_hue (PInt 180)) (\<lambda>a1.
     bnd (py_add base_hue (PInt 30)) (\<lambda>a2.
     bnd (py_add base_hue (PInt (- 30))) (\<lambda>a3.
     bnd (py_add base_hue (PInt 120)) (\<lambda>a4.
     bnd (py_add base_hue (PInt (- 120))) (\<lambda>a5.
     bnd (py_add base_hue (PInt 90)) (\<lambda>a6.
     bnd (py_add base_hue (PInt 180)) (\<lambda>a7.
     bnd (py_add base_hue (PInt 270)) (\<lambda>a8.
       let harmonies =
             [(str ''1'', [base_hue, py_mod a1 360]),
              (str ''2'', [base_hue, py_mod a2 360, py_mod a3 360]),
              (str ''3'', [base_hue, py_mod a4 360, py_mod a5 360]),
              (str ''4'', [base_hue, py_mod a6 360, py_mod a7 360, py_mod a8 360])]
       in case map_of harmonies harmony_type of
            None \<Rightarrow> Inl (KeyError harmony_type)
          | Some hues \<Rightarrow> Inr (map (\<lambda>h. (h, s, l)) hues))))))))))"

section \<open>The palette\<close>

text \<open>
  A dictionary is an association list in insertion order, and \<open>AList.update\<close> is the
  assignment \<^verbatim>\<open>d[k] = v\<close>: it replaces the value of a key that is present and appends a
  new key at the end. A dictionary comprehension inserts its items one by one and stops
  at the first exception. The palette maps a role to its list of three shades and each of
  the keys \<^verbatim>\<open>semantic\<close>, \<^verbatim>\<open>surface\<close>, \<^verbatim>\<open>brand\<close> to a dictionary of colours.
\<close>

datatype pvalue = Shades "ustr list" | Group "(ustr \<times> ustr) list"

type_synonym palette = "(ustr \<times> pvalue) list"

datatype colors_arg = Seed ustr | RoleMap "(ustr \<times> ustr) list"

fun dict_comp ::
  "('v \<Rightarrow> error + 'w) \<Rightarrow> (ustr \<times> 'v) list \<Rightarrow> (ustr \<times> 'w) list \<Rightarrow> error + (ustr \<times> 'w) list"
where
  "dict_comp f [] acc = Inr acc"
| "dict_comp f ((k, v) # kvs) acc = bnd (f v) (\<lambda>w. dict_comp f kvs (AList.update k w acc))"

fun list_comp :: "('a \<Rightarrow> error + 'b) \<Rightarrow> 'a list \<Rightarrow> error + 'b list" where
  "list_comp f [] = Inr []"
| "list_comp f (x # xs) = bnd (f x) (\<lambda>y. bnd (list_comp f xs) (\<lambda>ys. Inr (y # ys)))"

definition item :: "'a list \<Rightarrow> nat \<Rightarrow> error + 'a" where
  \<comment> \<open>\<^verbatim>\<open>xs[i]\<close> for a non-negative literal index\<close>
  "item xs i = (if i < length xs then Inr (xs ! i) else Inl IndexError)"

definition getitem :: "(ustr \<times> 'v) list \<Rightarrow> ustr \<Rightarrow> error + 'v" where
  \<comment> \<open>\<^verbatim>\<open>d[k]\<close>\<close>
  "getitem d k = (case map_of d k of None \<Rightarrow> Inl (KeyError k) | Some v \<Rightarrow> Inr v)"

definition contains :: "(ustr \<times> 'v) list \<Rightarrow> ustr \<Rightarrow> bool" where
  \<comment> \<open>\<^verbatim>\<open>k in d\<close>\<close>
  "contains d k = (map_of d k \<noteq> None)"

definition shade :: "pvalue \<Rightarrow> nat \<Rightarrow> error + ustr" where
  \<comment> \<open>\<^verbatim>\<open>palette[k][i]\<close>: an index into a list of shades; on a dictionary of colours the
      integer would be a missing key\<close>
  "shade pv i = (case pv of
       Shades xs \<Rightarrow> item xs i
     | Group g \<Rightarrow> Inl (KeyError (str (if i = 1 then ''1'' else ''2''))))"

definition hex_of_hsl :: "hsl \<Rightarrow> error + ustr" where
  \<comment> \<open>the expression \<^verbatim>\<open>rgb_to_hex(hsl_to_rgb(c))\<close>\<close>
  "hex_of_hsl c = bnd (hsl_to_rgb c) (\<lambda>rgb. Inr (rgb_to_hex rgb))"

definition generate_shades :: "hsl \<Rightarrow> error + hsl list" where
  "generate_shades color =
     bnd (adjust_hsl color 0 0 (- 30)) (\<lambda>darker.
     bnd (adjust_hsl color 0 0 30) (\<lambda>lighter. Inr [darker, color, lighter]))"

definition semantic_hues :: "(ustr \<times> int) list" where
  "semantic_hues = [(str ''error'', 0), (str ''success'', 120), (str ''info'', 200), (str ''warning'', 40)]"

definition surface_colors :: "ustr \<Rightarrow> error + (ustr \<times> ustr) list" where
  "surface_colors mode =
     (let surface_lightness = (if mode = str ''light'' then 95 else 20);
          on_surface_lightness = (if mode = str ''light'' then 10 else 90)
      in bnd (hex_of_hsl (PInt 0, PInt 0, PInt surface_lightness)) (\<lambda>background.
         bnd (hex_of_hsl (PInt 0, PInt 0, PInt on_surface_lightness)) (\<lambda>onSurface.
         bnd (hex_of_hsl (PInt 0, PInt 0, PInt 50)) (\<lambda>onSurfaceVariant.
         bnd (hex_of_hsl (PInt 0, PInt 0, PInt (100 - on_surface_lightness))) (\<lambda>inverseOnSurface.
           Inr [(str ''background'', background), (str ''onSurface'', onSurface),
                (str ''onSurfaceVariant'', onSurfaceVariant),
                (str ''inverseOnSurface'', inverseOnSurface)])))))"

definition derive_roles :: "(ustr \<times> hsl) list \<Rightarrow> ustr \<Rightarrow> error + (ustr \<times> hsl) list" where
  \<comment> \<open>the block under \<^verbatim>\<open>if 'primary' in hsl_colors and len(hsl_colors) < 3\<close>\<close>
  "derive_roles hsl_colors harmony =
     bnd (getitem hsl_colors (str ''primary'')) (\<lambda>primary.
     bnd (generate_harmony_colors primary harmony) (\<lambda>harmony_colors.
     bnd (if \<not> contains hsl_colors (str ''secondary'')
          then bnd (item harmony_colors 1) (\<lambda>c. Inr (AList.update (str ''secondary'') c hsl_colors))
          else Inr hsl_colors) (\<lambda>hsl_colors1.
       if \<not> contains hsl_colors1 (str ''tertiary'') \<and> 2 < length harmony_colors
       then bnd (item harmony_colors 2) (\<lambda>c. Inr (AList.update (str ''tertiary'') c hsl_colors1))
       else Inr hsl_colors1)))"

definition brand_colors :: "palette \<Rightarrow> (ustr \<times> hsl) list \<Rightarrow> error + (ustr \<times> ustr) list" where
  "brand_colors palette hsl_colors =
     bnd (bnd (getitem palette (str ''primary'')) (\<lambda>p. shade p 1)) (\<lambda>newPrimary.
     bnd (bnd (getitem hsl_colors (str ''primary'')) (\<lambda>p. bnd (adjust_hsl p 180 0 0) hex_of_hsl))
       (\<lambda>inversePrimary.
     bnd (if contains palette (str ''secondary'')
          then bnd (getitem palette (str ''secondary'')) (\<lambda>p. shade p 1)
          else bnd (getitem palette (str ''primary'')) (\<lambda>p. shade p 2)) (\<lambda>newAccent.
       Inr [(str ''newPrimary'', newPrimary), (str ''inversePrimary'', inversePrimary),
            (str ''newAccent'', newAccent)])))"

definition generate_palette ::
  "colors_arg \<Rightarrow> ustr \<Rightarrow> ustr \<Rightarrow> int \<Rightarrow> int \<Rightarrow> int \<Rightarrow> error + palette"
where
  "generate_palette colors0 mode harmony hue_shift saturation_adjust lightness_adjust =
     (let colors = (case colors0 of Seed c \<Rightarrow> [(str ''primary'', c)] | RoleMap m \<Rightarrow> m)
      in bnd (dict_comp (\<lambda>v. bnd (hex_to_rgb v) rgb_to_hsl) colors []) (\<lambda>hsl_colors0.
         bnd (if contains hsl_colors0 (str ''primary'') \<and> length hsl_colors0 < 3
              then derive_roles hsl_colors0 harmony else Inr hsl_colors0) (\<lambda>hsl_colors1.
         bnd (dict_comp (\<lambda>v. adjust_hsl v hue_shift saturation_adjust lightness_adjust)
                hsl_colors1 []) (\<lambda>hsl_colors.
         bnd (dict_comp (\<lambda>v. bnd (generate_shades v) (\<lambda>shades.
                bnd (list_comp hex_of_hsl shades) (\<lambda>hs. Inr (Shades hs)))) hsl_colors [])
           (\<lambda>palette0.
         bnd (dict_comp (\<lambda>h. bnd (adjust_hsl (PInt h, PInt 100, PInt 50)
                                    hue_shift saturation_adjust lightness_adjust) hex_of_hsl)
                semantic_hues []) (\<lambda>semantic_colors.
         bnd (surface_colors mode) (\<lambda>surface.
           let palette1 = AList.update (str ''semantic'') (Group semantic_colors) palette0;
               palette2 = AList.update (str ''surface'') (Group surface) palette1
           in bnd (brand_colors palette2 hsl_colors) (\<lambda>brand.
                Inr (AList.update (str ''brand'') (Group brand) palette2)))))))))"

section \<open>Notions of the specification\<close>

text \<open>
  A HexColor is a string of seven characters, \<^verbatim>\<open>#\<close> followed by six hex digits; the
  renderer only ever writes lowercase digits.
\<close>

definition valid_hex :: "ustr \<Rightarrow> bool" where
  "valid_hex s = (length s = 7 \<and> s ! 0 = 35 \<and> list_all (\<lambda>c. digit_value c \<noteq> None) (drop 1 s))"

definition lower_hex_digit :: "nat \<Rightarrow> bool" where
  \<comment> \<open>\<^verbatim>\<open>0\<close> to \<^verbatim>\<open>9\<close> or \<^verbatim>\<open>a\<close> to \<^verbatim>\<open>f\<close>\<close>
  "lower_hex_digit c = ((48 \<le> c \<and> c \<le> 57) \<or> (97 \<le> c \<and> c \<le> 102))"

definition hex_color :: "ustr \<Rightarrow> bool" where
  "hex_color s = (length s = 7 \<and> s ! 0 = 35 \<and> list_all lower_hex_digit (drop 1 s))"

text \<open>
  What \<^verbatim>\<open>int(s, 16)\<close> reads in a slice of at most two characters, said directly: a digit
  is a hex digit or a Unicode decimal digit, a blank is white space, and a slice has a
  value when it is two digits, a digit after a blank or a sign, a digit before a blank, or
  one digit alone.
\<close>

definition hexval :: "nat \<Rightarrow> int option" where
  "hexval c = (if c < 127 then digit_value c else map_option int (unicode_decimal c))"

definition blank :: "nat \<Rightarrow> bool" where
  "blank c = (py_isspace c \<or> unicode_space c)"

fun slice_value :: "ustr \<Rightarrow> int option" where
  "slice_value [a] = hexval a"
| "slice_value [a, b] =
     (case (hexval a, hexval b) of
        (Some x, Some y) \<Rightarrow> Some (16 * x + y)
      | (None, Some y) \<Rightarrow> if blank a \<or> a = 43 then Some y else if a = 45 then Some (- y) else None
      | (Some x, None) \<Rightarrow> if blank b then Some x else None
      | (None, None) \<Rightarrow> None)"
| "slice_value s = None"

text \<open>
  An integer is too large for a float when its conversion overflows, which is what
  \<^verbatim>\<open>float + int\<close> raises \<^verbatim>\<open>OverflowError\<close> on.
\<close>

fun is_float :: "pynum \<Rightarrow> bool" where
  "is_float (PFloat x) = True"
| "is_float (PInt n) = False"

definition too_large :: "int \<Rightarrow> bool" where
  "too_large n = (2 ^ 1024 \<le> \<bar>rnd (of_int n)\<bar>)"

text \<open>
  The remainder modulo 360 of the mathematics, in \<open>[0, 360)\<close>, and the hue at an offset
  from a base hue as the specification describes it: the sum, wrapped by that remainder.
  On a float hue the sum is rounded, and so is the remainder of a negative sum.
\<close>

definition wrap360 :: "rat \<Rightarrow> rat" where
  "wrap360 y = y - 360 * of_int \<lfloor>y / 360\<rfloor>"

definition float_wrap360 :: "rat \<Rightarrow> rat" where
  "float_wrap360 y = (if 0 \<le> y then wrap360 y else rnd (wrap360 y))"

fun hue_plus :: "pynum \<Rightarrow> int \<Rightarrow> pynum" where
  "hue_plus (PInt a) offset = PInt ((a + offset) mod 360)"
| "hue_plus (PFloat x) offset = PFloat (float_wrap360 (rnd (x + of_int offset)))"

text \<open>
  An HslColor has its hue in \<open>[0, 360]\<close> and its saturation and lightness in
  \<open>[0, 100]\<close>. The adjustment of the specification on one component: the sum of the
  component and an integer delta in Python's arithmetic (on a float, the delta is converted
  and the sum rounded), the hue wrapped, the other two clamped.
\<close>

definition hsl_color :: "hsl \<Rightarrow> bool" where
  "hsl_color c = (case c of (h, s, l) \<Rightarrow>
     0 \<le> num_val h \<and> num_val h \<le> 360 \<and> 0 \<le> num_val s \<and> num_val s \<le> 100
     \<and> 0 \<le> num_val l \<and> num_val l \<le> 100)"

fun delta_sum :: "pynum \<Rightarrow> int \<Rightarrow> pynum" where
  "delta_sum (PInt k) n = PInt (k + n)"
| "delta_sum (PFloat x) n = PFloat (rnd (x + rnd (of_int n)))"

fun wrap_hue :: "pynum \<Rightarrow> pynum" where
  "wrap_hue (PInt k) = PInt (k mod 360)"
| "wrap_hue (PFloat y) = PFloat (float_wrap360 y)"

definition clamp :: "pynum \<Rightarrow> pynum" where
  "clamp v = (if num_val v \<le> 0 then PInt 0 else if 100 \<le> num_val v then PInt 100 else v)"

section \<open>Properties of the rounding\<close>

lemma ilog2_lower: assumes "0 < x" shows "2 powi ilog2 x \<le> x"
proof (cases "1 \<le> x")
  case True
  define n where "n = \<lfloor>x\<rfloor>"
  have n1: "1 \<le> n" using True by (simp add: n_def)
  then have b: "2 ^ nat (bitlen n - 1) \<le> n" using bitlen_bounds [of n] by simp
  have bl: "1 \<le> bitlen n" using n1 by (simp add: bitlen_alt_def)
  have "(2::rat) powi (bitlen n - 1) = of_int (2 ^ nat (bitlen n - 1))"
    using bl by (simp add: power_int_nonneg_exp)
  also have "\<dots> \<le> of_int n" using b by (simp only: of_int_le_iff)
  also have "\<dots> \<le> x" by (simp add: n_def)
  finally show ?thesis using True by (simp add: ilog2_def n_def)
next
  case False
  define c where "c = \<lceil>1 / x\<rceil>"
  define k where "k = bitlen (c - 1)"
  have x1: "x < 1" using False by simp
  have "1 < 1 / x" using assms x1 by (simp add: field_simps)
  then have c2: "2 \<le> c" unfolding c_def by (simp add: less_ceiling_iff) 
  then have b: "c - 1 < 2 ^ nat k" using bitlen_bounds [of "c - 1"] by (simp add: k_def)
  have k0: "0 \<le> k" by (simp add: k_def bitlen_nonneg)
  have "1 / x \<le> of_int c" by (simp add: c_def)
  also have "\<dots> \<le> of_int (2 ^ nat k)" using b by (simp only: of_int_le_iff)
  finally have "1 / x \<le> 2 ^ nat k" by simp
  then have "1 / 2 ^ nat k \<le> x" using assms by (simp add: field_simps)
  moreover have "(2::rat) powi (- k) = 1 / 2 ^ nat k"
    using k0 by (simp add: power_int_minus_divide power_int_nonneg_exp)
  ultimately show ?thesis using False by (simp add: ilog2_def c_def k_def)
qed

lemma ilog2_upper: assumes "0 < x" shows "x < 2 powi (ilog2 x + 1)"
proof (cases "1 \<le> x")
  case True
  define n where "n = \<lfloor>x\<rfloor>"
  have n1: "1 \<le> n" using True by (simp add: n_def)
  then have b: "n < 2 ^ nat (bitlen n)" using bitlen_bounds [of n] by simp
  have bl: "0 \<le> bitlen n" by (simp add: bitlen_nonneg)
  have "x < of_int (n + 1)" using floor_correct [of x] by (simp add: n_def)
  also have "\<dots> \<le> of_int (2 ^ nat (bitlen n))" using b by (simp only: of_int_le_iff)
  also have "\<dots> = (2::rat) powi (bitlen n)" using bl by (simp add: power_int_nonneg_exp)
  finally show ?thesis using True by (simp add: ilog2_def n_def)
next
  case False
  define c where "c = \<lceil>1 / x\<rceil>"
  define k where "k = bitlen (c - 1)"
  have x1: "x < 1" using False by simp
  have "1 < 1 / x" using assms x1 by (simp add: field_simps)
  then have c2: "2 \<le> c" unfolding c_def by (simp add: less_ceiling_iff)
  then have b: "2 ^ nat (k - 1) \<le> c - 1" using bitlen_bounds [of "c - 1"] by (simp add: k_def)
  have k1: "1 \<le> k" using c2 by (simp add: k_def bitlen_alt_def)
  have "of_int (2 ^ nat (k - 1)) \<le> (of_int (c - 1) :: rat)" using b by (simp only: of_int_le_iff)
  also have "\<dots> < 1 / x" unfolding c_def using ceiling_correct [of "1 / x"] by simp
  finally have "2 ^ nat (k - 1) < 1 / x" by simp
  then have "x < 1 / 2 ^ nat (k - 1)" using assms by (simp add: field_simps)
  moreover have "(2::rat) powi (- k + 1) = 1 / 2 ^ nat (k - 1)"
  proof -
    have "(2::rat) powi (- k + 1) = 2 powi (- (k - 1))" by simp
    also have "\<dots> = 1 / 2 powi (k - 1)" by (rule power_int_minus_divide)
    also have "\<dots> = 1 / 2 ^ nat (k - 1)" using k1 by (simp add: power_int_nonneg_exp)
    finally show ?thesis .
  qed
  ultimately show ?thesis using False by (simp add: ilog2_def c_def k_def)
qed


lemma rhe_of_int: "rhe (of_int n) = n"
  by (simp add: rhe_def)

lemma floor_facts: "of_int \<lfloor>y::rat\<rfloor> \<le> y" "y < of_int \<lfloor>y\<rfloor> + 1"
  using floor_correct [of y] by (simp_all only: of_int_add of_int_1)

lemma rhe_err: "\<bar>of_int (rhe y) - y\<bar> \<le> 1 / 2"
proof -
  define f where "f = \<lfloor>y\<rfloor>"
  have a: "of_int f \<le> y" "y < of_int f + 1"
    unfolding f_def by (rule floor_facts)+
  show ?thesis
    unfolding rhe_def Let_def f_def [symmetric] using a by (auto simp: abs_if)
qed

lemma rhe_mono: assumes "x \<le> y" shows "rhe x \<le> rhe y"
proof (rule ccontr)
  assume "\<not> rhe x \<le> rhe y"
  then have "rhe y + 1 \<le> rhe x" by simp
  then have i: "(of_int (rhe y) :: rat) + 1 \<le> of_int (rhe x)"
    by (metis of_int_1 of_int_add of_int_le_iff) 
  have "x = y" using i rhe_err [of x] rhe_err [of y] assms by (simp add: abs_le_iff) 
  then show False using \<open>\<not> rhe x \<le> rhe y\<close> by simp
qed

lemma rhe_minus: "rhe (- y) = - rhe y"
proof (cases "y = of_int \<lfloor>y\<rfloor>")
  case True
  then obtain n where "y = of_int n" ..
  then have "rhe (- y) = rhe (of_int (- n))" by simp
  also have "\<dots> = - n" by (rule rhe_of_int)
  finally show ?thesis using \<open>y = of_int n\<close> by (simp add: rhe_of_int)
next
  case False
  define f where "f = \<lfloor>y\<rfloor>"
  have "of_int f \<le> y" "y \<noteq> of_int f" "y < of_int f + 1"
    unfolding f_def using floor_facts [of y] False by blast+
  then have a: "of_int f < y" "y < of_int f + 1" by linarith+
  have "\<lfloor>- y\<rfloor> = - f - 1"
    using a by (intro floor_unique) simp_all
  then show ?thesis using a
    unfolding rhe_def Let_def f_def [symmetric] by auto
qed


lemma pow2_split: "(2::rat) powi e = 2 ^ 52 * 2 powi (e - 52)" "(2::rat) powi (e + 1) = 2 ^ 53 * 2 powi (e - 52)"
proof -
  have "e = 52 + (e - 52)" by simp
  then have "(2::rat) powi e = 2 powi (52 + (e - 52))" by (rule arg_cong)
  also have "\<dots> = 2 powi 52 * 2 powi (e - 52)" by (rule power_int_add) simp
  finally show "(2::rat) powi e = 2 ^ 52 * 2 powi (e - 52)" by simp
  have "e + 1 = 53 + (e - 52)" by simp
  then have "(2::rat) powi (e + 1) = 2 powi (53 + (e - 52))" by (rule arg_cong)
  also have "\<dots> = 2 powi 53 * 2 powi (e - 52)" by (rule power_int_add) simp
  finally show "(2::rat) powi (e + 1) = 2 ^ 53 * 2 powi (e - 52)" by simp
qed

lemma rnd_pos_eq: "0 < x \<Longrightarrow> rnd x = of_int (rhe (x / 2 powi (ilog2 x - 52))) * 2 powi (ilog2 x - 52)"
  by (simp add: rnd_def Let_def)

lemma rhe_pos_bounds:
  assumes "0 < x"
  shows "2 ^ 52 \<le> rhe (x / 2 powi (ilog2 x - 52))" "rhe (x / 2 powi (ilog2 x - 52)) \<le> 2 ^ 53"
proof -
  define u where "u = (2::rat) powi (ilog2 x - 52)"
  have u0: "0 < u" by (simp add: u_def)
  have "2 ^ 52 * u \<le> x" "x < 2 ^ 53 * u"
    using ilog2_lower [OF assms] ilog2_upper [OF assms] pow2_split [of "ilog2 x"]
    by (simp_all add: u_def)
  then have "of_int (2 ^ 52) \<le> x / u" "x / u \<le> of_int (2 ^ 53)"
    using u0 by (simp_all add: field_simps)
  then have "rhe (of_int (2 ^ 52)) \<le> rhe (x / u)" "rhe (x / u) \<le> rhe (of_int (2 ^ 53))"
    by (simp_all only: rhe_mono)
  then show "2 ^ 52 \<le> rhe (x / 2 powi (ilog2 x - 52))" "rhe (x / 2 powi (ilog2 x - 52)) \<le> 2 ^ 53"
    by (simp_all only: rhe_of_int u_def)
qed

lemma rnd_pos_bounds:
  assumes "0 < x"
  shows "2 powi ilog2 x \<le> rnd x" "rnd x \<le> 2 powi (ilog2 x + 1)"
proof -
  define u where "u = (2::rat) powi (ilog2 x - 52)"
  define M where "M = rhe (x / u)"
  have u0: "0 < u" by (simp add: u_def)
  have M: "2 ^ 52 \<le> M" "M \<le> 2 ^ 53"
    using rhe_pos_bounds [OF assms] by (simp_all add: M_def u_def)
  then have "(of_int (2 ^ 52) :: rat) \<le> of_int M" "(of_int M :: rat) \<le> of_int (2 ^ 53)"
    by (simp_all only: of_int_le_iff)
  then have "2 ^ 52 * u \<le> of_int M * u" "of_int M * u \<le> 2 ^ 53 * u"
    using u0 by simp_all
  then show "2 powi ilog2 x \<le> rnd x" "rnd x \<le> 2 powi (ilog2 x + 1)"
    using pow2_split [of "ilog2 x"] rnd_pos_eq [OF assms] by (simp_all add: u_def M_def)
qed

lemma rnd_0: "rnd 0 = 0"
  by (simp add: rnd_def)

lemma rnd_minus: "rnd (- x) = - rnd x"
  by (simp add: rnd_def Let_def rhe_minus)

lemma rnd_pos: "0 < x \<Longrightarrow> 0 < rnd x"
  using rnd_pos_bounds(1) [of x] zero_less_power_int [of "2::rat" "ilog2 x"] by linarith

lemma rnd_neg: "x < 0 \<Longrightarrow> rnd x < 0"
  using rnd_pos [of "- x"] by (simp add: rnd_minus)

lemma ilog2_mono: assumes "0 < x" "x \<le> y" shows "ilog2 x \<le> ilog2 y"
proof (rule ccontr)
  assume "\<not> ilog2 x \<le> ilog2 y"
  then have "ilog2 y + 1 \<le> ilog2 x" by simp
  then have "(2::rat) powi (ilog2 y + 1) \<le> 2 powi ilog2 x"
    by (intro power_int_increasing) simp_all
  then show False
    using ilog2_lower [of x] ilog2_upper [of y] assms by linarith
qed

lemma rnd_mono_pos: assumes "0 < x" "x \<le> y" shows "rnd x \<le> rnd y"
proof (cases "ilog2 x = ilog2 y")
  case True
  define u where "u = (2::rat) powi (ilog2 x - 52)"
  have u0: "0 < u" by (simp add: u_def)
  have "x / u \<le> y / u" using assms u0 by (simp add: divide_right_mono)
  then have "rhe (x / u) \<le> rhe (y / u)" by (rule rhe_mono)
  then have "(of_int (rhe (x / u)) :: rat) \<le> of_int (rhe (y / u))" by (simp only: of_int_le_iff)
  then have "of_int (rhe (x / u)) * u \<le> of_int (rhe (y / u)) * u" using u0 by simp
  then show ?thesis using assms True by (simp add: rnd_pos_eq u_def)
next
  case False
  then have "ilog2 x + 1 \<le> ilog2 y" using ilog2_mono [OF assms] by simp
  then have "(2::rat) powi (ilog2 x + 1) \<le> 2 powi ilog2 y"
    by (intro power_int_increasing) simp_all
  then show ?thesis
    using rnd_pos_bounds(2) [of x] rnd_pos_bounds(1) [of y] assms by linarith
qed

lemma rnd_mono: assumes "x \<le> y" shows "rnd x \<le> rnd y"
proof -
  consider "0 < x" | "x \<le> 0" "0 \<le> y" | "y < 0" by linarith
  then show ?thesis
  proof cases
    case 1
    then show ?thesis using assms by (rule rnd_mono_pos)
  next
    case 2
    have "rnd x \<le> 0" using 2(1) rnd_neg [of x] by (cases "x = 0") (simp_all add: rnd_0)
    moreover have "0 \<le> rnd y" using 2(2) rnd_pos [of y] by (cases "y = 0") (simp_all add: rnd_0)
    ultimately show ?thesis by simp
  next
    case 3
    then have "rnd (- y) \<le> rnd (- x)" using assms by (intro rnd_mono_pos) simp_all
    then show ?thesis by (simp add: rnd_minus)
  qed
qed


lemma rnd_exact_pos:
  assumes "0 < m" "m < 2 ^ 53"
  shows "rnd (of_int m * 2 powi k) = of_int m * 2 powi k"
proof -
  define x where "x = (of_int m :: rat) * 2 powi k"
  define e where "e = ilog2 x"
  have x0: "0 < x" using assms(1) by (simp add: x_def)
  have "k + 52 - e \<ge> 0"
  proof (rule ccontr)
    assume "\<not> k + 52 - e \<ge> 0"
    then have "k + 53 \<le> e" by simp
    then have "(2::rat) powi (k + 53) \<le> 2 powi e"
      by (intro power_int_increasing) simp_all
    moreover have "(2::rat) powi (k + 53) = 2 powi k * 2 powi 53"
      by (rule power_int_add) simp
    moreover have "(of_int m :: rat) < of_int (2 ^ 53)" using assms(2) by (simp only: of_int_less_iff)
    then have "x < 2 powi k * 2 ^ 53" by (simp add: x_def mult.commute)
    ultimately show False using ilog2_lower [OF x0] by (simp add: e_def)
  qed
  then obtain j where j: "k + 52 - e = int j" using nonneg_int_cases by blast 
  have kj: "k = int j + (e - 52)" using j by simp
  have "(2::rat) powi (int j + (e - 52)) = 2 powi (int j) * 2 powi (e - 52)"
    by (rule power_int_add) simp
  then have "(2::rat) powi k = 2 powi (int j) * 2 powi (e - 52)"
    by (simp only: kj [symmetric])
  then have "x / 2 powi (e - 52) = of_int (m * 2 ^ j)"
    by (simp add: x_def)
  then have "rhe (x / 2 powi (e - 52)) = m * 2 ^ j"
    by (simp only: rhe_of_int)
  then have "rnd x = of_int (m * 2 ^ j) * 2 powi (e - 52)"
    using x0 by (simp add: rnd_pos_eq e_def)
  also have "\<dots> = x" using \<open>x / 2 powi (e - 52) = of_int (m * 2 ^ j)\<close>
    by (simp add: field_simps)
  finally show ?thesis by (simp add: x_def)
qed

lemma rnd_exact: assumes "\<bar>m\<bar> < 2 ^ 53" shows "rnd (of_int m * 2 powi k) = of_int m * 2 powi k"
proof -
  consider "0 < m" | "m = 0" | "m < 0" by linarith
  then show ?thesis
  proof cases
    case 1
    then show ?thesis using assms by (intro rnd_exact_pos) simp_all
  next
    case 2
    then show ?thesis by (simp add: rnd_0)
  next
    case 3
    then have "rnd (of_int (- m) * 2 powi k) = of_int (- m) * 2 powi k"
      using assms by (intro rnd_exact_pos) simp_all
    then show ?thesis using rnd_minus [of "of_int m * 2 powi k"] by simp
  qed
qed

lemma rnd_of_int: "\<bar>m\<bar> < 2 ^ 53 \<Longrightarrow> rnd (of_int m) = of_int m"
  using rnd_exact [of m 0] by simp

lemma rnd_idem_pos: assumes "0 < x" shows "rnd (rnd x) = rnd x"
proof -
  define u where "u = (2::rat) powi (ilog2 x - 52)"
  define M where "M = rhe (x / u)"
  have M: "2 ^ 52 \<le> M" "M \<le> 2 ^ 53"
    using rhe_pos_bounds [OF assms] by (simp_all add: M_def u_def)
  have r: "rnd x = of_int M * 2 powi (ilog2 x - 52)"
    using rnd_pos_eq [OF assms] by (simp add: M_def u_def)
  show ?thesis
  proof (cases "M = 2 ^ 53")
    case True
    have "rnd x = of_int 1 * 2 powi (ilog2 x + 1)"
      using r True pow2_split(2) [of "ilog2 x"] by simp
    moreover have "rnd (of_int 1 * 2 powi (ilog2 x + 1)) = of_int 1 * 2 powi (ilog2 x + 1)"
      by (rule rnd_exact) simp
    ultimately show ?thesis by simp
  next
    case False
    then have "\<bar>M\<bar> < 2 ^ 53" using M by simp
    then show ?thesis unfolding r by (rule rnd_exact)
  qed
qed

lemma rnd_idem: "rnd (rnd x) = rnd x"
proof -
  consider "0 < x" | "x = 0" | "x < 0" by linarith
  then show ?thesis
  proof cases
    case 1
    then show ?thesis by (rule rnd_idem_pos)
  next
    case 2
    then show ?thesis by (simp add: rnd_0)
  next
    case 3
    then have "rnd (rnd (- x)) = rnd (- x)" by (intro rnd_idem_pos) simp
    then show ?thesis by (simp add: rnd_minus)
  qed
qed

lemma rnd_err_pos: assumes "0 < x" shows "\<bar>rnd x - x\<bar> \<le> x / 2 ^ 53"
proof -
  define u where "u = (2::rat) powi (ilog2 x - 52)"
  have u0: "0 < u" by (simp add: u_def)
  have "rnd x - x = (of_int (rhe (x / u)) - x / u) * u"
    using rnd_pos_eq [OF assms] u0 by (simp add: u_def field_simps)
  then have "\<bar>rnd x - x\<bar> = \<bar>of_int (rhe (x / u)) - x / u\<bar> * u"
    using u0 by (simp add: abs_mult)
  also have "\<dots> \<le> 1 / 2 * u"
    using rhe_err [of "x / u"] u0 by (intro mult_right_mono) simp_all
  also have "\<dots> = 2 powi ilog2 x / 2 ^ 53"
    using pow2_split(1) [of "ilog2 x"] by (simp add: u_def)
  also have "\<dots> \<le> x / 2 ^ 53"
    using ilog2_lower [OF assms] by (simp add: divide_right_mono)
  finally show ?thesis .
qed

lemma rnd_err: "\<bar>rnd x - x\<bar> \<le> \<bar>x\<bar> / 2 ^ 53"
proof -
  consider "0 < x" | "x = 0" | "x < 0" by linarith
  then show ?thesis
  proof cases
    case 1
    then show ?thesis using rnd_err_pos [of x] by simp
  next
    case 2
    then show ?thesis by (simp add: rnd_0)
  next
    case 3
    then have "\<bar>rnd (- x) - (- x)\<bar> \<le> (- x) / 2 ^ 53" by (intro rnd_err_pos) simp
    then show ?thesis using 3 by (simp add: rnd_minus abs_if split: if_splits)
  qed
qed
section \<open>Properties of the hex conversions\<close>

lemma bnd_simps: "bnd (Inr x) f = f x" "bnd (Inl e) f = Inl e"
  by (simp_all add: bnd_def)

lemma bnd_Inr_iff: "bnd m f = Inr y \<longleftrightarrow> (\<exists>x. m = Inr x \<and> f x = Inr y)"
  by (cases m) (simp_all add: bnd_def)

lemma bnd_Inl_iff: "bnd m f = Inl e \<longleftrightarrow> m = Inl e \<or> (\<exists>x. m = Inr x \<and> f x = Inl e)"
  by (cases m) (simp_all add: bnd_def)

lemma digit_value_facts:
  assumes "digit_value c = Some x"
  shows "c < 127" "\<not> py_isspace c" "c \<noteq> 43" "c \<noteq> 45" "c \<noteq> 95" "c \<noteq> 120" "c \<noteq> 88"
    "0 \<le> x" "x < 16"
  using assms by (auto simp: digit_value_def py_isspace_def split: if_splits)

lemma char_facts:
  "\<not> py_isspace 43" "\<not> py_isspace 45" "\<not> py_isspace 95" "\<not> py_isspace 48"
  "digit_value 43 = None" "digit_value 45 = None" "digit_value 95 = None"
  "digit_value 120 = None" "digit_value 88 = None" "digit_value 48 = Some 0"
  "digit_value 32 = None" "py_isspace 32"
  by (simp_all add: py_isspace_def digit_value_def)

lemma isspace_facts:
  assumes "py_isspace b"
  shows "digit_value b = None" "b \<noteq> 95" "b \<noteq> 43" "b \<noteq> 45" "b \<noteq> 48"
  using assms by (auto simp: digit_value_def py_isspace_def)

lemma lfs_Nil: "long_from_string [] = Inl ValueError"
  by (simp add: long_from_string_def skip_prefix_def)

lemma lfs_one:
  "long_from_string [a] = (case digit_value a of Some x \<Rightarrow> Inr x | None \<Rightarrow> Inl ValueError)"
proof (cases "digit_value a")
  case None
  then show ?thesis
    by (cases "py_isspace a"; cases "a = 43"; cases "a = 45")
       (simp_all add: long_from_string_def skip_prefix_def Let_def)
next
  case (Some x)
  then show ?thesis using digit_value_facts [OF Some]
    by (simp add: long_from_string_def skip_prefix_def Let_def)
qed

lemma lfs_two_digits:
  assumes "digit_value a = Some x" "digit_value b = Some y"
  shows "long_from_string [a, b] = Inr (16 * x + y)"
  using assms digit_value_facts [OF assms(1)] digit_value_facts [OF assms(2)]
  by (simp add: long_from_string_def Let_def skip_prefix_def)

lemma lfs_digit_other:
  assumes "digit_value a = Some x" "digit_value b = None"
  shows "long_from_string [a, b] = (if py_isspace b then Inr x else Inl ValueError)"
proof (cases "a = 48 \<and> (b = 120 \<or> b = 88)")
  case True
  then have "\<not> py_isspace b" by (auto simp: py_isspace_def)
  then show ?thesis using True assms digit_value_facts [OF assms(1)]
    by (auto simp: long_from_string_def Let_def skip_prefix_def)
next
  case False
  then have "skip_prefix [a, b] = [a, b]" by (auto simp: skip_prefix_def)
  then show ?thesis using assms digit_value_facts [OF assms(1)] char_facts
    by (cases "b = 95") (auto simp: long_from_string_def Let_def)
qed

lemma lfs_other_any:
  assumes "digit_value a = None"
  shows "long_from_string [a, b] =
    (if py_isspace a \<or> a = 43 then long_from_string [b]
     else if a = 45 then map_sum id uminus (long_from_string [b])
     else Inl ValueError)"
proof -
  consider "py_isspace a" | "a = 43" | "a = 45" | "\<not> py_isspace a" "a \<noteq> 43" "a \<noteq> 45"
    by blast
  then show ?thesis
  proof cases
    case 1
    then show ?thesis by (simp add: long_from_string_def)
  next
    case 2
    show ?thesis
    proof (cases "py_isspace b")
      case True
      then show ?thesis using 2 char_facts isspace_facts [OF True]
        by (simp add: long_from_string_def Let_def skip_prefix_def)
    next
      case False
      then show ?thesis using 2 char_facts
        by (cases "digit_value b"; cases "b = 95"; cases "b = 43"; cases "b = 45")
           (simp_all add: long_from_string_def Let_def skip_prefix_def)
    qed
  next
    case 3
    show ?thesis
    proof (cases "py_isspace b")
      case True
      then show ?thesis using 3 char_facts isspace_facts [OF True]
        by (simp add: long_from_string_def Let_def skip_prefix_def)
    next
      case False
      then show ?thesis using 3 char_facts
        by (cases "digit_value b"; cases "b = 95"; cases "b = 43"; cases "b = 45")
           (simp_all add: long_from_string_def Let_def skip_prefix_def)
    qed
  next
    case 4
    then have "a \<noteq> 48" using assms char_facts by auto
    then have "skip_prefix [a, b] = [a, b]" by (simp add: skip_prefix_def)
    then show ?thesis using 4 assms
      by (cases "a = 95") (simp_all add: long_from_string_def Let_def)
  qed
qed

lemma digit_block_no_space:
  "b \<in> set digit_blocks \<Longrightarrow> b \<le> c \<Longrightarrow> c < b + 10 \<Longrightarrow> \<not> unicode_space c \<and> 127 \<le> c"
  unfolding digit_blocks_def unicode_space_def by auto

lemma unicode_decimal_Some:
  assumes "unicode_decimal c = Some d"
  shows "d < 10" "\<not> unicode_space c" "127 \<le> c"
proof -
  obtain b r where f: "filter (\<lambda>b. b \<le> c \<and> c < b + 10) digit_blocks = b # r" and d: "d = c - b"
    using assms by (auto simp: unicode_decimal_def split: list.splits)
  have "b \<in> set (filter (\<lambda>b. b \<le> c \<and> c < b + 10) digit_blocks)"
    unfolding f by simp
  then have b: "b \<in> set digit_blocks" "b \<le> c" "c < b + 10" by simp_all
  show "d < 10" using b d by simp
  show "\<not> unicode_space c" "127 \<le> c" using digit_block_no_space [OF b] by simp_all
qed

lemma digit_value_small: "d < 10 \<Longrightarrow> digit_value (48 + d) = Some (int d)"
  by (simp add: digit_value_def)

lemma to_ascii_char_spec:
  "case to_ascii_char c of
     None \<Rightarrow> hexval c = None \<and> \<not> blank c \<and> c \<noteq> 43 \<and> c \<noteq> 45
   | Some a \<Rightarrow> digit_value a = hexval c \<and> py_isspace a = blank c
       \<and> (a = 43 \<longleftrightarrow> c = 43) \<and> (a = 45 \<longleftrightarrow> c = 45)"
proof (cases "c < 127")
  case True
  then have "\<not> unicode_space c" by (auto simp: unicode_space_def)
  then show ?thesis using True by (simp add: to_ascii_char_def hexval_def blank_def)
next
  case False
  then have ns: "\<not> py_isspace c" by (auto simp: py_isspace_def)
  show ?thesis
  proof (cases "unicode_space c")
    case True
    then have "unicode_decimal c = None" using unicode_decimal_Some(2) [of c]
      by (cases "unicode_decimal c") auto
    then show ?thesis using True False char_facts
      by (simp add: to_ascii_char_def hexval_def blank_def)
  next
    case nsp: False
    show ?thesis
    proof (cases "unicode_decimal c")
      case None
      then show ?thesis using False nsp ns
        by (simp add: to_ascii_char_def hexval_def blank_def)
    next
      case (Some d)
      have d: "d < 10" using unicode_decimal_Some(1) [OF Some] .
      have "\<not> py_isspace (48 + d)" using d by (auto simp: py_isspace_def)
      then show ?thesis using False nsp ns Some digit_value_small [OF d]
        by (simp add: to_ascii_char_def hexval_def blank_def)
    qed
  qed
qed

lemma int16_slice:
  assumes "length t \<le> 2"
  shows "int16 t = (case slice_value t of Some v \<Rightarrow> Inr v | None \<Rightarrow> Inl ValueError)"
proof -
  consider "t = []" | a where "t = [a]" | a b where "t = [a, b]"
    using assms by (cases t; cases "tl t"; cases "tl (tl t)") auto
  then show ?thesis
  proof cases
    case 1
    then show ?thesis by (simp add: int16_def lfs_Nil)
  next
    case 2
    show ?thesis using to_ascii_char_spec [of a] unfolding 2
      by (cases "to_ascii_char a") (auto simp: int16_def lfs_one split: option.splits)
  next
    case 3
    show ?thesis
    proof (cases "to_ascii_char a")
      case None
      then show ?thesis using to_ascii_char_spec [of a] unfolding 3
        by (auto simp: int16_def split: option.splits)
    next
      case a': (Some a')
      show ?thesis
      proof (cases "to_ascii_char b")
        case None
        then show ?thesis using to_ascii_char_spec [of b] a' unfolding 3
          by (auto simp: int16_def split: option.splits)
      next
        case b': (Some b')
        have i: "int16 [a, b] = long_from_string [a', b']"
          using a' b' by (simp add: int16_def)
        have sa: "digit_value a' = hexval a" "py_isspace a' = blank a"
          "(a' = 43) = (a = 43)" "(a' = 45) = (a = 45)"
          using to_ascii_char_spec [of a] a' by simp_all
        have sb: "digit_value b' = hexval b" "py_isspace b' = blank b"
          using to_ascii_char_spec [of b] b' by simp_all
        show ?thesis
        proof (cases "digit_value a'")
          case None
          then have ha: "hexval a = None" using sa by simp
          have l: "long_from_string [b'] = (case hexval b of Some x \<Rightarrow> Inr x | None \<Rightarrow> Inl ValueError)"
            by (simp add: lfs_one sb)
          have b45: "\<not> blank 45" by (simp add: blank_def py_isspace_def unicode_space_def)
          show ?thesis unfolding 3 i lfs_other_any [OF None] l using sa(2-4) ha b45
            by (cases "hexval b") auto
        next
          case x: (Some x)
          show ?thesis
          proof (cases "digit_value b'")
            case None
            have hx: "hexval a = Some x" "hexval b = None" using sa sb x None by simp_all
            show ?thesis unfolding 3 i lfs_digit_other [OF x None] using hx sb(2)
              by simp
          next
            case (Some y)
            have hx: "hexval a = Some x" "hexval b = Some y" using sa sb x Some by simp_all
            show ?thesis unfolding 3 i lfs_two_digits [OF x Some] using hx
              by simp
          qed
        qed
      qed
    qed
  qed
qed

lemma int16_two_digits:
  assumes "digit_value c = Some x" "digit_value d = Some y"
  shows "int16 [c, d] = Inr (16 * x + y)"
  using assms digit_value_facts(1) [OF assms(1)] digit_value_facts(1) [OF assms(2)]
  by (simp add: int16_def to_ascii_char_def lfs_two_digits)

lemma digit_value_hexchar: "n < 16 \<Longrightarrow> digit_value (hexchar n) = Some (int n)"
  by (auto simp: digit_value_def hexchar_def)

lemma lower_hex_digit_hexchar: "n < 16 \<Longrightarrow> lower_hex_digit (hexchar n)"
  by (auto simp: lower_hex_digit_def hexchar_def)

lemma fmt02x_byte:
  assumes "0 \<le> n" "n \<le> 255"
  shows "fmt02x n = [hexchar (nat n div 16), hexchar (nat n mod 16)]"
proof (cases "nat n < 16")
  case True
  then show ?thesis using assms
    by (simp add: fmt02x_def hexstr.simps [of "nat n"] Let_def hexchar_def)
next
  case False
  moreover have "nat n div 16 < 16" using assms by simp
  ultimately show ?thesis using assms
    by (simp add: fmt02x_def hexstr.simps [of "nat n"] hexstr.simps [of "nat n div 16"] Let_def)
qed

lemma int16_fmt02x:
  assumes "0 \<le> n" "n \<le> 255"
  shows "int16 (fmt02x n) = Inr n"
proof -
  have a: "nat n div 16 < 16" "nat n mod 16 < 16" using assms by simp_all
  have "int16 (fmt02x n) = Inr (16 * int (nat n div 16) + int (nat n mod 16))"
    unfolding fmt02x_byte [OF assms]
    by (rule int16_two_digits) (rule digit_value_hexchar, rule a)+
  also have "16 * int (nat n div 16) + int (nat n mod 16) = n"
    using assms by (simp add: zdiv_int zmod_int)
  finally show ?thesis .
qed

lemma length_fmt02x: "0 \<le> n \<Longrightarrow> n \<le> 255 \<Longrightarrow> length (fmt02x n) = 2"
  by (simp add: fmt02x_byte)

lemma hex_color_rgb_to_hex:
  assumes "0 \<le> r" "r \<le> 255" "0 \<le> g" "g \<le> 255" "0 \<le> b" "b \<le> 255"
  shows "hex_color (rgb_to_hex (r, g, b))"
proof -
  have a: "nat r div 16 < 16" "nat r mod 16 < 16" "nat g div 16 < 16" "nat g mod 16 < 16"
    "nat b div 16 < 16" "nat b mod 16 < 16" using assms by simp_all
  show ?thesis using a
    by (simp add: hex_color_def rgb_to_hex_def fmt02x_byte assms lower_hex_digit_hexchar)
qed

lemma hex_to_rgb_slices:
  "hex_to_rgb s =
     (case (slice_value (take 2 (drop 1 s)), slice_value (take 2 (drop 3 s)),
            slice_value (take 2 (drop 5 s))) of
        (Some r, Some g, Some b) \<Rightarrow> Inr (r, g, b)
      | _ \<Rightarrow> Inl ValueError)"
  unfolding hex_to_rgb_def
  by (simp add: int16_slice bnd_def split: option.splits)

lemma length7:
  assumes "length s = 7"
  obtains c0 c1 c2 c3 c4 c5 c6 where "s = [c0, c1, c2, c3, c4, c5, c6]"
proof -
  from assms have "length s = Suc (Suc (Suc (Suc (Suc (Suc (Suc 0))))))" by simp
  then show ?thesis using that by (auto simp: length_Suc_conv)
qed

lemma valid_hex_digits:
  assumes "valid_hex s"
  obtains x1 x2 x3 x4 x5 x6 where
    "s = [35, s ! 1, s ! 2, s ! 3, s ! 4, s ! 5, s ! 6]"
    "digit_value (s ! 1) = Some x1" "digit_value (s ! 2) = Some x2"
    "digit_value (s ! 3) = Some x3" "digit_value (s ! 4) = Some x4"
    "digit_value (s ! 5) = Some x5" "digit_value (s ! 6) = Some x6"
proof -
  have "length s = 7" using assms by (simp add: valid_hex_def)
  then obtain c0 c1 c2 c3 c4 c5 c6 where s: "s = [c0, c1, c2, c3, c4, c5, c6]"
    by (rule length7)
  obtain x1 x2 x3 x4 x5 x6 where d:
    "digit_value c1 = Some x1" "digit_value c2 = Some x2" "digit_value c3 = Some x3"
    "digit_value c4 = Some x4" "digit_value c5 = Some x5" "digit_value c6 = Some x6"
    using assms unfolding valid_hex_def s by auto
  have "c0 = 35" using assms unfolding valid_hex_def s by simp
  then show ?thesis using that [of x1 x2 x3 x4 x5 x6] d unfolding s by simp
qed

lemma hex_to_rgb_valid:
  assumes "valid_hex s"
  shows "\<exists>x1 x2 x3 x4 x5 x6.
     digit_value (s ! 1) = Some x1 \<and> digit_value (s ! 2) = Some x2 \<and>
     digit_value (s ! 3) = Some x3 \<and> digit_value (s ! 4) = Some x4 \<and>
     digit_value (s ! 5) = Some x5 \<and> digit_value (s ! 6) = Some x6 \<and>
     hex_to_rgb s = Inr (16 * x1 + x2, 16 * x3 + x4, 16 * x5 + x6)"
proof -
  obtain x1 x2 x3 x4 x5 x6 where s: "s = [35, s ! 1, s ! 2, s ! 3, s ! 4, s ! 5, s ! 6]"
    and d: "digit_value (s ! 1) = Some x1" "digit_value (s ! 2) = Some x2"
    "digit_value (s ! 3) = Some x3" "digit_value (s ! 4) = Some x4"
    "digit_value (s ! 5) = Some x5" "digit_value (s ! 6) = Some x6"
    using valid_hex_digits [OF assms] by blast
  have "hex_to_rgb [35, s ! 1, s ! 2, s ! 3, s ! 4, s ! 5, s ! 6]
      = Inr (16 * x1 + x2, 16 * x3 + x4, 16 * x5 + x6)"
    using d by (simp add: hex_to_rgb_def int16_two_digits bnd_def)
  then show ?thesis using d s by metis
qed

lemma valid_hex_in_range:
  assumes "valid_hex s"
  shows "\<exists>r g b. hex_to_rgb s = Inr (r, g, b) \<and> 0 \<le> r \<and> r \<le> 255 \<and> 0 \<le> g \<and> g \<le> 255
    \<and> 0 \<le> b \<and> b \<le> 255"
proof -
  obtain x1 x2 x3 x4 x5 x6 where d:
    "digit_value (s ! 1) = Some x1" "digit_value (s ! 2) = Some x2"
    "digit_value (s ! 3) = Some x3" "digit_value (s ! 4) = Some x4"
    "digit_value (s ! 5) = Some x5" "digit_value (s ! 6) = Some x6"
    and h: "hex_to_rgb s = Inr (16 * x1 + x2, 16 * x3 + x4, 16 * x5 + x6)"
    using hex_to_rgb_valid [OF assms] by blast
  show ?thesis
    using h digit_value_facts(8,9) [OF d(1)] digit_value_facts(8,9) [OF d(2)]
      digit_value_facts(8,9) [OF d(3)] digit_value_facts(8,9) [OF d(4)]
      digit_value_facts(8,9) [OF d(5)] digit_value_facts(8,9) [OF d(6)]
    by simp
qed

lemma hex_color_valid: "hex_color s \<Longrightarrow> valid_hex s"
  unfolding hex_color_def valid_hex_def list_all_iff
  by (auto simp: lower_hex_digit_def digit_value_def)

section \<open>Properties of the arithmetic\<close>

lemma ilog2_ge_iff: assumes "0 < v" shows "k \<le> ilog2 v \<longleftrightarrow> 2 powi k \<le> v"
proof
  assume "k \<le> ilog2 v"
  then have "(2::rat) powi k \<le> 2 powi ilog2 v" by (intro power_int_increasing) simp_all
  then show "2 powi k \<le> v" using ilog2_lower [OF assms] by linarith
next
  assume a: "2 powi k \<le> v"
  show "k \<le> ilog2 v"
  proof (rule ccontr)
    assume "\<not> k \<le> ilog2 v"
    then have "ilog2 v + 1 \<le> k" by simp
    then have "(2::rat) powi (ilog2 v + 1) \<le> 2 powi k" by (intro power_int_increasing) simp_all
    then show False using ilog2_upper [OF assms] a by linarith
  qed
qed

lemma overflows_iff: "overflows v \<longleftrightarrow> 2 powi 1024 \<le> \<bar>v\<bar>"
proof (cases "v = 0")
  case True
  have "(0::rat) < 2 powi 1024" by (rule zero_less_power_int) simp
  then show ?thesis using True by (simp only: overflows_def abs_zero) simp
next
  case False
  then have "0 < \<bar>v\<bar>" by simp
  then show ?thesis using False unfolding overflows_def by (simp only: ilog2_ge_iff simp_thms)
qed

lemma rnd_below_top:
  assumes "0 < y" "rnd y < 2 powi (e + 1)"
  shows "rnd y \<le> 2 powi (e + 1) - 2 powi (e - 52)"
proof -
  define u where "u = (2::rat) powi (e - 52)"
  have u0: "0 < u" by (simp add: u_def)
  have p: "(2::rat) powi e = 2 ^ 52 * u" "(2::rat) powi (e + 1) = 2 ^ 53 * u"
    unfolding u_def by (rule pow2_split)+
  have "2 powi ilog2 y < (2::rat) powi (e + 1)"
    using rnd_pos_bounds(1) [OF assms(1)] assms(2) by linarith
  then have "\<not> e + 1 \<le> ilog2 y"
    using power_int_increasing [of "e + 1" "ilog2 y" "2::rat"] by auto
  then consider "ilog2 y + 1 \<le> e" | "ilog2 y = e" by linarith
  then show ?thesis
  proof cases
    case 1
    then have "(2::rat) powi (ilog2 y + 1) \<le> 2 powi e" by (intro power_int_increasing) simp_all
    then have "rnd y \<le> 2 ^ 52 * u" using rnd_pos_bounds(2) [OF assms(1)] p by linarith
    then show ?thesis unfolding p u_def [symmetric] using u0 by simp
  next
    case 2
    define R where "R = rhe (y / u)"
    have r: "rnd y = of_int R * u" unfolding R_def u_def using rnd_pos_eq [OF assms(1)] 2 by simp
    have "of_int R * u < 2 ^ 53 * u" using assms(2) r p by simp
    then have "(of_int R :: rat) < of_int (2 ^ 53)" using u0 by simp
    then have "R < 2 ^ 53" by (simp only: of_int_less_iff)
    then have "R \<le> 2 ^ 53 - 1" by simp
    then have "(of_int R :: rat) \<le> of_int (2 ^ 53 - 1)" by (simp only: of_int_le_iff)
    then have "of_int R * u \<le> (2 ^ 53 - 1) * u" using u0 by simp
    then show ?thesis unfolding p u_def [symmetric] r by (simp add: algebra_simps)
  qed
qed

lemma rnd_stays_below:
  assumes "0 < y" "y < 2 powi (e + 1) - 2 powi (e - 52) / 2"
  shows "rnd y < 2 powi (e + 1)"
proof -
  define u where "u = (2::rat) powi (e - 52)"
  have u0: "0 < u" by (simp add: u_def)
  have p: "(2::rat) powi e = 2 ^ 52 * u" "(2::rat) powi (e + 1) = 2 ^ 53 * u"
    unfolding u_def by (rule pow2_split)+
  have y: "y < 2 ^ 53 * u - u / 2" using assms(2) unfolding p u_def [symmetric] .
  then have "2 powi ilog2 y < (2::rat) powi (e + 1)"
    using ilog2_lower [OF assms(1)] u0 unfolding p by linarith
  then have "\<not> e + 1 \<le> ilog2 y"
    using power_int_increasing [of "e + 1" "ilog2 y" "2::rat"] by auto
  then consider "ilog2 y + 1 \<le> e" | "ilog2 y = e" by linarith
  then show ?thesis
  proof cases
    case 1
    then have "(2::rat) powi (ilog2 y + 1) \<le> 2 powi e" by (intro power_int_increasing) simp_all
    then have "rnd y \<le> 2 ^ 52 * u" using rnd_pos_bounds(2) [OF assms(1)] p by linarith
    then show ?thesis unfolding p using u0 by simp
  next
    case 2
    define R where "R = rhe (y / u)"
    have r: "rnd y = of_int R * u" unfolding R_def u_def using rnd_pos_eq [OF assms(1)] 2 by simp
    have "y / u < 2 ^ 53 - 1 / 2" using y u0 by (simp add: field_simps)
    moreover have "of_int R - y / u \<le> 1 / 2" using rhe_err [of "y / u"] unfolding R_def by linarith
    ultimately have "(of_int R :: rat) < 2 ^ 53" by linarith
    then have "of_int R * u < 2 ^ 53 * u" using u0 by simp
    then show ?thesis unfolding p r .
  qed
qed

lemma abs_rnd: "\<bar>rnd y\<bar> = rnd \<bar>y\<bar>"
proof (cases "0 \<le> y")
  case True
  then have "0 \<le> rnd y" using rnd_mono [of 0 y] by (simp add: rnd_0)
  then show ?thesis using True by simp
next
  case False
  then have "rnd y < 0" using rnd_neg [of y] by simp
  then show ?thesis using False by (simp add: rnd_minus)
qed

lemma sum_below_top:
  assumes "\<bar>rnd z\<bar> < 2 powi (e + 1)" "\<bar>x\<bar> < 2 powi (e - 52) / 2"
  shows "\<bar>rnd (x + rnd z)\<bar> < 2 powi (e + 1)"
proof -
  define P where "P = (2::rat) powi (e + 1)"
  define u where "u = (2::rat) powi (e - 52)"
  have u0: "0 < u" by (simp add: u_def)
  have w: "\<bar>rnd z\<bar> \<le> P - u"
  proof (cases "z = 0")
    case True
    have "u \<le> 2 ^ 53 * u" using u0 by simp
    then have "u \<le> P" unfolding P_def u_def using pow2_split(2) [of e] by simp
    then show ?thesis using True by (simp add: rnd_0)
  next
    case False
    then have "0 < \<bar>z\<bar>" by simp
    then show ?thesis
      using rnd_below_top [of "\<bar>z\<bar>" e] assms(1) unfolding abs_rnd P_def u_def by simp
  qed
  define y where "y = x + rnd z"
  have "\<bar>y\<bar> \<le> \<bar>x\<bar> + \<bar>rnd z\<bar>" unfolding y_def by (rule abs_triangle_ineq)
  then have y: "\<bar>y\<bar> < P - u / 2" using w assms(2) unfolding u_def [symmetric] by linarith
  show ?thesis
  proof (cases "y = 0")
    case True
    then show ?thesis unfolding y_def [symmetric] by (simp add: rnd_0)
  next
    case False
    then have "0 < \<bar>y\<bar>" by simp
    then show ?thesis
      using rnd_stays_below [of "\<bar>y\<bar>" e] y
      unfolding abs_rnd P_def u_def y_def by simp
  qed
qed

lemma no_overflow_sum:
  assumes "\<not> overflows (rnd z)" "\<bar>x\<bar> \<le> 360"
  shows "\<not> overflows (rnd (x + rnd z))"
proof -
  have e: "(1023::int) + 1 = 1024" "(1023::int) - 52 = 971" by simp_all
  have "(2::rat) powi 10 \<le> 2 powi 971" by (rule power_int_increasing) simp_all
  moreover have "(2::rat) powi 10 = 1024" by simp
  ultimately have a: "\<bar>x\<bar> < 2 powi (1023 - 52) / 2" using assms(2) unfolding e by linarith
  have b: "\<bar>rnd z\<bar> < 2 powi (1023 + 1)"
    using assms(1) unfolding overflows_iff e by simp
  have "\<bar>rnd (x + rnd z)\<bar> < 2 powi (1023 + 1)" using b a by (rule sum_below_top)
  then show ?thesis unfolding overflows_iff e by simp
qed

lemma too_large_iff: "too_large n \<longleftrightarrow> overflows (rnd (of_int n))"
proof -
  define C :: rat where "C = 2 ^ 1024"
  have "C = 2 powi 1024" unfolding C_def by simp
  then show ?thesis unfolding too_large_def overflows_iff C_def [symmetric] by simp
qed

lemma float_of_int_code [code]:
  "float_of_int n = (let x = rnd (of_int n) in if overflows x then Inl OverflowError else Inr x)"
  using too_large_iff [of n] by (simp add: float_of_int_def Let_def too_large_def)

lemma too_large_code [code]: "too_large n = overflows (rnd (of_int n))"
  by (rule too_large_iff)

lemma float_of_int_too_large:
  "float_of_int n = (if too_large n then Inl OverflowError else Inr (rnd (of_int n)))"
  by (simp add: float_of_int_def too_large_def Let_def)


lemma wrap360_range: "0 \<le> wrap360 y" "wrap360 y < 360"
proof -
  define f where "f = \<lfloor>y / 360\<rfloor>"
  have a: "of_int f \<le> y / 360" "y / 360 < of_int f + 1" unfolding f_def by (rule floor_facts)+
  then have "of_int f * 360 \<le> y" "y < (of_int f + 1) * 360" by (simp_all add: field_simps)
  then show "0 \<le> wrap360 y" "wrap360 y < 360"
    unfolding wrap360_def f_def [symmetric] by (simp_all add: algebra_simps)
qed

lemma wrap360_of_int: "wrap360 (of_int n) = of_int (n mod 360)"
proof -
  have "\<lfloor>(of_int n :: rat) / of_int 360\<rfloor> = n div 360" by (rule floor_divide_of_int_eq)
  then have "\<lfloor>(of_int n :: rat) / 360\<rfloor> = n div 360" by simp
  moreover have "n mod 360 = n - 360 * (n div 360)" by (simp add: minus_mult_div_eq_mod)
  ultimately show ?thesis unfolding wrap360_def by simp
qed

lemma rnd_360: "rnd 360 = 360" and rnd_1: "rnd 1 = 1" and rnd_100: "rnd 100 = 100"
  using rnd_of_int [of 360] rnd_of_int [of 1] rnd_of_int [of 100] by simp_all

lemma float_wrap360_range: "0 \<le> float_wrap360 y" "float_wrap360 y \<le> 360"
proof -
  have "rnd 0 \<le> rnd (wrap360 y)" "rnd (wrap360 y) \<le> rnd 360"
    using wrap360_range [of y] by (simp_all only: rnd_mono less_imp_le)
  then show "0 \<le> float_wrap360 y" "float_wrap360 y \<le> 360"
    using wrap360_range [of y] unfolding float_wrap360_def by (simp_all add: rnd_0 rnd_360)
qed

lemma float_wrap360_nonneg: "0 \<le> y \<Longrightarrow> float_wrap360 y < 360"
  using wrap360_range [of y] by (simp add: float_wrap360_def)

lemma frem_360: "frem y 360 = float_wrap360 y"
proof (cases "0 \<le> y")
  case True
  then have "trunc (y / 360) = \<lfloor>y / 360\<rfloor>" by (simp add: trunc_def)
  then have m: "y - of_int (trunc (y / 360)) * 360 = wrap360 y" by (simp add: wrap360_def)
  show ?thesis using True wrap360_range [of y] unfolding frem_def Let_def m
    by (simp add: float_wrap360_def)
next
  case False
  define g where "g = \<lfloor>- (y / 360)\<rfloor>"
  define f where "f = \<lfloor>y / 360\<rfloor>"
  have t: "trunc (y / 360) = - g" using False by (simp add: trunc_def g_def)
  have gb: "of_int g \<le> - (y / 360)" "- (y / 360) < of_int g + 1" unfolding g_def by (rule floor_facts)+
  have fb: "of_int f \<le> y / 360" "y / 360 < of_int f + 1" unfolding f_def by (rule floor_facts)+
  define m where "m = y + of_int g * 360"
  have m: "y - of_int (trunc (y / 360)) * 360 = m" unfolding t m_def by simp
  have mle: "m \<le> 0" using gb unfolding m_def by (simp add: field_simps)
  show ?thesis
  proof (cases "m = 0")
    case True
    then have "y / 360 = of_int (- g)" unfolding m_def by (simp add: field_simps)
    then have "f = - g" unfolding f_def by (simp only: floor_of_int)
    then have "wrap360 y = 0" using True unfolding wrap360_def f_def [symmetric] m_def by simp
    then show ?thesis using False True unfolding frem_def Let_def m
      by (simp add: float_wrap360_def rnd_0)
  next
    case nz: False
    then have "of_int g < - (y / 360)" using gb unfolding m_def by (auto simp: field_simps)
    then have "of_int (- g - 1) < y / 360 \<and> y / 360 < of_int (- g - 1) + 1" using gb by simp
    then have "f = - g - 1" unfolding f_def by (simp only: floor_unique less_imp_le)
    then have "wrap360 y = m + 360" unfolding wrap360_def f_def [symmetric] m_def by simp
    then show ?thesis using False nz mle unfolding frem_def Let_def m
      by (simp add: float_wrap360_def)
  qed
qed

lemma py_mod_wrap_hue: "py_mod v 360 = wrap_hue v"
  by (cases v) (simp_all add: frem_360)

lemma wrap_hue_range: "0 \<le> num_val (wrap_hue v)" "num_val (wrap_hue v) \<le> 360"
  using float_wrap360_range by (cases v; simp)+

lemma wrap_hue_is_float: "is_float (wrap_hue v) = is_float v"
  by (cases v) simp_all

lemma clamp_eq: "py_max (PInt 0) (py_min (PInt 100) v) = clamp v"
  by (auto simp: py_max_def py_min_def clamp_def)

lemma clamp_range: "0 \<le> num_val (clamp v)" "num_val (clamp v) \<le> 100"
  by (auto simp: clamp_def)

lemma clamp_int: "clamp (PInt k) = PInt (max 0 (min 100 k))"
  by (auto simp: clamp_def max_def min_def)

lemma py_add_float:
  "py_add (PFloat x) (PInt n) =
     (if too_large n then Inl OverflowError
      else if overflows (rnd (x + rnd (of_int n))) then Inl Unmodelled
      else Inr (PFloat (rnd (x + rnd (of_int n)))))"
  by (simp add: bnd_simps float_of_int_too_large float_sum_def Let_def)

lemma py_add_delta:
  assumes "\<bar>num_val a\<bar> \<le> 360"
  shows "py_add a (PInt n) =
    (if is_float a \<and> too_large n then Inl OverflowError else Inr (delta_sum a n))"
proof (cases a)
  case (PInt k)
  then show ?thesis by simp
next
  case (PFloat x)
  have "\<not> too_large n \<Longrightarrow> \<not> overflows (rnd (x + rnd (of_int n)))"
    using assms PFloat unfolding too_large_iff by (intro no_overflow_sum) simp_all
  then show ?thesis unfolding PFloat py_add_float by auto
qed


lemma not_too_large: assumes "\<bar>n\<bar> < 2 ^ 1023" shows "\<not> too_large n"
proof -
  define B :: rat where "B = 2 ^ 1023"
  define C :: rat where "C = 2 ^ 1024"
  have e: "rnd B = B" unfolding B_def using rnd_exact [of 1 1023] by simp
  have BC: "B < C" unfolding B_def C_def by (rule power_strict_increasing) simp_all
  have "\<bar>of_int n :: rat\<bar> < B" unfolding B_def
    using assms by (metis of_int_abs of_int_less_iff of_int_numeral of_int_power)
  then have "of_int n \<le> B" "- B \<le> (of_int n :: rat)" by linarith+
  then have "rnd (of_int n) \<le> rnd B" "rnd (- B) \<le> rnd (of_int n)"
    by (simp_all only: rnd_mono)
  then have "\<bar>rnd (of_int n)\<bar> \<le> B" unfolding rnd_minus e by linarith
  then have "\<not> C \<le> \<bar>rnd (of_int n)\<bar>" using BC by linarith
  then show ?thesis unfolding too_large_def C_def .
qed

lemma too_large_pow: "too_large (2 ^ 1024)"
proof -
  have "rnd (of_int 1 * 2 powi 1024) = of_int 1 * 2 powi 1024" by (rule rnd_exact) simp
  then have e: "rnd (of_int (2 ^ 1024)) = 2 ^ 1024" by simp
  have "(0::rat) \<le> 2 ^ 1024" by (rule zero_le_power) simp
  then have "\<bar>(2::rat) ^ 1024\<bar> = 2 ^ 1024" by (rule abs_of_nonneg)
  then show ?thesis unfolding too_large_def e by (simp only: order_refl)
qed

lemma float_of_int_small: assumes "\<bar>n\<bar> < 2 ^ 53" shows "float_of_int n = Inr (of_int n)"
proof -
  have "\<bar>n\<bar> < 2 ^ 1023" using assms power_strict_increasing [of 53 1023 "2::int"] by simp
  then show ?thesis
    using not_too_large [of n] rnd_of_int [OF assms] by (simp add: float_of_int_too_large)
qed

lemma hsl_color_abs:
  assumes "hsl_color (a, b, c)"
  shows "\<bar>num_val a\<bar> \<le> 360" "\<bar>num_val b\<bar> \<le> 360" "\<bar>num_val c\<bar> \<le> 360"
  using assms by (simp_all add: hsl_color_def)

lemma adjust_hsl_color:
  assumes "hsl_color (a, b, c)"
  shows "adjust_hsl (a, b, c) hs sa la =
    (if (is_float a \<and> too_large hs) \<or> (is_float b \<and> too_large sa) \<or> (is_float c \<and> too_large la)
     then Inl OverflowError
     else Inr (wrap_hue (delta_sum a hs), clamp (delta_sum b sa), clamp (delta_sum c la)))"
  unfolding adjust_hsl_def
  by (simp add: py_add_delta [OF hsl_color_abs(1) [OF assms]]
      py_add_delta [OF hsl_color_abs(2) [OF assms]] py_add_delta [OF hsl_color_abs(3) [OF assms]]
      bnd_simps py_mod_wrap_hue clamp_eq del: py_add.simps)

lemma hsl_color_adjusted: "hsl_color (wrap_hue h, clamp s, clamp l)"
  using wrap_hue_range [of h] clamp_range [of s] clamp_range [of l] by (simp add: hsl_color_def)

lemma adjust_hsl_int:
  "adjust_hsl (PInt h, PInt s, PInt l) hs sa la =
     Inr (PInt ((h + hs) mod 360), PInt (max 0 (min 100 (s + sa))), PInt (max 0 (min 100 (l + la))))"
  by (simp add: adjust_hsl_def bnd_simps clamp_eq clamp_int)

lemma adjust_hsl_int_hue_370:
  "adjust_hsl (PInt h, PInt s, PInt l) 370 sa la = adjust_hsl (PInt h, PInt s, PInt l) 10 sa la"
proof -
  have "(h + 370) mod 360 = (h + 10 + 360) mod 360" by (simp add: add.assoc)
  also have "\<dots> = (h + 10) mod 360" by (rule mod_add_self2)
  finally have "(h + 370) mod 360 = (h + 10) mod 360" .
  then show ?thesis by (simp add: adjust_hsl_int)
qed

lemma rnd_1000: "rnd 1000 = 1000" and rnd_m900: "rnd (- 900) = - 900"
  using rnd_of_int [of 1000] rnd_of_int [of "- 900"] by simp_all

lemma saturation_1000:
  assumes "0 \<le> num_val b"
  shows "clamp (delta_sum b 1000) = PInt 100"
proof -
  have "1000 \<le> num_val (delta_sum b 1000)"
  proof (cases b)
    case (PInt k)
    then show ?thesis using assms by simp
  next
    case (PFloat x)
    have "rnd 1000 \<le> rnd (x + 1000)" using assms PFloat by (intro rnd_mono) simp
    then show ?thesis using PFloat by (simp add: rnd_1000)
  qed
  then show ?thesis by (simp add: clamp_def)
qed

lemma lightness_m1000:
  assumes "num_val c \<le> 100"
  shows "clamp (delta_sum c (- 1000)) = PInt 0"
proof -
  have "num_val (delta_sum c (- 1000)) \<le> - 900"
  proof (cases c)
    case (PInt k)
    then show ?thesis using assms by simp
  next
    case (PFloat x)
    have e: "rnd (- 1000) = - 1000" using rnd_minus [of 1000] by (simp add: rnd_1000)
    have "rnd (x + - 1000) \<le> rnd (- 900)" using assms PFloat by (intro rnd_mono) simp
    then show ?thesis using PFloat e by (simp add: rnd_m900)
  qed
  then show ?thesis by (simp add: clamp_def)
qed


section \<open>Properties of the palette\<close>

lemma generate_palette_InrE:
  assumes "generate_palette colors0 mode harmony hs sa la = Inr pal"
  obtains hsl0 hsl1 hsl palette0 semantic surface brand where
    "dict_comp (\<lambda>v. bnd (hex_to_rgb v) rgb_to_hsl)
       (case colors0 of Seed c \<Rightarrow> [(str ''primary'', c)] | RoleMap m \<Rightarrow> m) [] = Inr hsl0"
    "(if contains hsl0 (str ''primary'') \<and> length hsl0 < 3
      then derive_roles hsl0 harmony else Inr hsl0) = Inr hsl1"
    "dict_comp (\<lambda>v. adjust_hsl v hs sa la) hsl1 [] = Inr hsl"
    "dict_comp (\<lambda>v. bnd (generate_shades v) (\<lambda>shades.
        bnd (list_comp hex_of_hsl shades) (\<lambda>hs. Inr (Shades hs)))) hsl [] = Inr palette0"
    "dict_comp (\<lambda>h. bnd (adjust_hsl (PInt h, PInt 100, PInt 50) hs sa la) hex_of_hsl)
       semantic_hues [] = Inr semantic"
    "surface_colors mode = Inr surface"
    "brand_colors (AList.update (str ''surface'') (Group surface)
       (AList.update (str ''semantic'') (Group semantic) palette0)) hsl = Inr brand"
    "pal = AList.update (str ''brand'') (Group brand)
       (AList.update (str ''surface'') (Group surface)
         (AList.update (str ''semantic'') (Group semantic) palette0))"
  using assms unfolding generate_palette_def Let_def bnd_Inr_iff by blast


lemma grey_levels:
  "hex_of_hsl (PInt 0, PInt 0, PInt 95) = Inr (str ''#f2f2f2'')"
  "hex_of_hsl (PInt 0, PInt 0, PInt 10) = Inr (str ''#191919'')"
  "hex_of_hsl (PInt 0, PInt 0, PInt 50) = Inr (str ''#7f7f7f'')"
  "hex_of_hsl (PInt 0, PInt 0, PInt 90) = Inr (str ''#e5e5e5'')"
  "hex_of_hsl (PInt 0, PInt 0, PInt 20) = Inr (str ''#333333'')"
  by code_simp+

lemma surface_colors_light:
  "surface_colors (str ''light'') =
     Inr [(str ''background'', str ''#f2f2f2''), (str ''onSurface'', str ''#191919''),
          (str ''onSurfaceVariant'', str ''#7f7f7f''), (str ''inverseOnSurface'', str ''#e5e5e5'')]"
  by (simp add: surface_colors_def grey_levels bnd_simps)

lemma surface_colors_other:
  assumes "mode \<noteq> str ''light''"
  shows "surface_colors mode =
     Inr [(str ''background'', str ''#333333''), (str ''onSurface'', str ''#e5e5e5''),
          (str ''onSurfaceVariant'', str ''#7f7f7f''), (str ''inverseOnSurface'', str ''#191919'')]"
  using assms by (simp add: surface_colors_def grey_levels bnd_simps)

lemma key_facts:
  "str ''brand'' \<noteq> str ''surface''" "str ''brand'' \<noteq> str ''semantic''"
  "str ''surface'' \<noteq> str ''semantic''" "str ''brand'' \<noteq> str ''primary''"
  "str ''brand'' \<noteq> str ''secondary''" "str ''surface'' \<noteq> str ''primary''"
  "str ''surface'' \<noteq> str ''secondary''" "str ''semantic'' \<noteq> str ''primary''"
  "str ''semantic'' \<noteq> str ''secondary''" "str ''primary'' \<noteq> str ''secondary''"
  "str ''primary'' \<noteq> str ''tertiary''" "str ''secondary'' \<noteq> str ''tertiary''"
  "str ''dark'' \<noteq> str ''light''"
  by (simp_all add: str_def)

lemma generate_palette_surface:
  assumes "generate_palette c mode h hs sa la = Inr pal"
  shows "\<exists>surface. surface_colors mode = Inr surface
    \<and> map_of pal (str ''surface'') = Some (Group surface)"
  using assms key_facts by (elim generate_palette_InrE) (simp add: update_conv')


lemma palette_black_light:
  "generate_palette (Seed (str ''#000000'')) (str ''light'') (str ''1'') 0 0 0 =
     Inr [(str ''primary'', Shades [str ''#000000'', str ''#000000'', str ''#4c4c4c'']),
          (str ''secondary'', Shades [str ''#000000'', str ''#000000'', str ''#4c4c4c'']),
          (str ''semantic'', Group [(str ''error'', str ''#ff0000''), (str ''success'', str ''#00ff00''),
             (str ''info'', str ''#00a9ff''), (str ''warning'', str ''#ffaa00'')]),
          (str ''surface'', Group [(str ''background'', str ''#f2f2f2''), (str ''onSurface'', str ''#191919''),
             (str ''onSurfaceVariant'', str ''#7f7f7f''), (str ''inverseOnSurface'', str ''#e5e5e5'')]),
          (str ''brand'', Group [(str ''newPrimary'', str ''#000000''),
             (str ''inversePrimary'', str ''#000000''), (str ''newAccent'', str ''#000000'')])]"
  by code_simp

lemma palette_black_dark:
  "generate_palette (Seed (str ''#000000'')) (str ''dark'') (str ''1'') 0 0 0 =
     Inr [(str ''primary'', Shades [str ''#000000'', str ''#000000'', str ''#4c4c4c'']),
          (str ''secondary'', Shades [str ''#000000'', str ''#000000'', str ''#4c4c4c'']),
          (str ''semantic'', Group [(str ''error'', str ''#ff0000''), (str ''success'', str ''#00ff00''),
             (str ''info'', str ''#00a9ff''), (str ''warning'', str ''#ffaa00'')]),
          (str ''surface'', Group [(str ''background'', str ''#333333''), (str ''onSurface'', str ''#e5e5e5''),
             (str ''onSurfaceVariant'', str ''#7f7f7f''), (str ''inverseOnSurface'', str ''#191919'')]),
          (str ''brand'', Group [(str ''newPrimary'', str ''#000000''),
             (str ''inversePrimary'', str ''#000000''), (str ''newAccent'', str ''#000000'')])]"
  by code_simp


section \<open>The claims\<close>

text \<open>
  C8. For every RGB triple whose three channels are integers in \<open>[0, 255]\<close>, parsing
  its hex rendering gives the triple back: \<^verbatim>\<open>hex_to_rgb(rgb_to_hex(r)) == r\<close>.
\<close>

theorem hex_roundtrip:
  assumes "0 \<le> r" "r \<le> 255" "0 \<le> g" "g \<le> 255" "0 \<le> b" "b \<le> 255"
  shows "hex_to_rgb (rgb_to_hex (r, g, b)) = Inr (r, g, b)"
  using assms
  by (simp add: hex_to_rgb_def rgb_to_hex_def bnd_def length_fmt02x int16_fmt02x)

theorem hex_roundtrip_witness:
  "hex_to_rgb (rgb_to_hex (66, 135, 245)) = Inr (66, 135, 245)"
  using hex_roundtrip [of 66 135 245] by simp

text \<open>
  C4, as stated, fails: \<^verbatim>\<open>hex_to_rgb\<close> checks neither the length of the string nor its
  first character, and \<^verbatim>\<open>int(s, 16)\<close> also reads a sign or a blank beside a digit, and a
  Unicode decimal digit as a digit. The four inputs below are no HexColor (no leading
  \<^verbatim>\<open>#\<close>; nine characters; a sign and a blank among the six positions; the Arabic-Indic
  digits one to six, code points 1633 to 1638), and each is parsed without an error.
\<close>

theorem hex_to_rgb_unchecked_counterexample:
  "\<not> valid_hex (str ''xff0000'') \<and> hex_to_rgb (str ''xff0000'') = Inr (255, 0, 0)
   \<and> \<not> valid_hex (str ''#ff0000ff'') \<and> hex_to_rgb (str ''#ff0000ff'') = Inr (255, 0, 0)
   \<and> \<not> valid_hex (str ''#+f 1-2'') \<and> hex_to_rgb (str ''#+f 1-2'') = Inr (15, 1, - 2)
   \<and> \<not> valid_hex [35, 1633, 1634, 1635, 1636, 1637, 1638]
   \<and> hex_to_rgb [35, 1633, 1634, 1635, 1636, 1637, 1638] = Inr (18, 52, 86)"
proof -
  have "\<not> valid_hex (str ''xff0000'') \<and> hex_to_rgb (str ''xff0000'') = Inr (255, 0, 0)"
    by code_simp
  moreover have "\<not> valid_hex (str ''#ff0000ff'')
      \<and> hex_to_rgb (str ''#ff0000ff'') = Inr (255, 0, 0)"
    by code_simp
  moreover have "\<not> valid_hex (str ''#+f 1-2'') \<and> hex_to_rgb (str ''#+f 1-2'') = Inr (15, 1, - 2)"
    by code_simp
  moreover have "\<not> valid_hex [35, 1633, 1634, 1635, 1636, 1637, 1638]"
    by (simp add: valid_hex_def digit_value_def)
  moreover have "hex_to_rgb [35, 1633, 1634, 1635, 1636, 1637, 1638] = Inr (18, 52, 86)"
    unfolding hex_to_rgb_def int16_def
    by (simp add: to_ascii_char_def unicode_space_def unicode_decimal_def digit_blocks_def
        lfs_two_digits digit_value_def bnd_def)
  ultimately show ?thesis by simp
qed

text \<open>
  C4, amended. \<^verbatim>\<open>hex_to_rgb\<close> reads only the characters at positions 1 to 6, as the three
  slices \<^verbatim>\<open>[1:3]\<close>, \<^verbatim>\<open>[3:5]\<close>, \<^verbatim>\<open>[5:7]\<close>. It returns the three values of the slices when
  each slice has a value, and fails with \<^verbatim>\<open>ValueError\<close> in every other case. A slice has a
  value exactly when it is two digits (\<open>16 x + y\<close>), a blank or \<^verbatim>\<open>+\<close> and then a digit
  (\<open>y\<close>), \<^verbatim>\<open>-\<close> and then a digit (\<open>- y\<close>), a digit and then a blank (\<open>x\<close>), or one
  digit alone (\<open>x\<close>); a digit is a hex digit or a Unicode decimal digit, a blank is a white
  space character. So on a valid HexColor the result is the three parsed two-digit bytes,
  every string of fewer than 6 characters fails, and the first character and everything
  after position 6 are ignored.
\<close>

theorem hex_to_rgb_reads_positions_1_to_6:
  "hex_to_rgb s =
     (case (slice_value (take 2 (drop 1 s)), slice_value (take 2 (drop 3 s)),
            slice_value (take 2 (drop 5 s))) of
        (Some r, Some g, Some b) \<Rightarrow> Inr (r, g, b)
      | _ \<Rightarrow> Inl ValueError)
   \<and> (valid_hex s \<longrightarrow> (\<exists>x1 x2 x3 x4 x5 x6.
       digit_value (s ! 1) = Some x1 \<and> digit_value (s ! 2) = Some x2 \<and>
       digit_value (s ! 3) = Some x3 \<and> digit_value (s ! 4) = Some x4 \<and>
       digit_value (s ! 5) = Some x5 \<and> digit_value (s ! 6) = Some x6 \<and>
       hex_to_rgb s = Inr (16 * x1 + x2, 16 * x3 + x4, 16 * x5 + x6)))
   \<and> (length s < 6 \<longrightarrow> hex_to_rgb s = Inl ValueError)
   \<and> hex_to_rgb s = hex_to_rgb (c # take 6 (drop 1 s))"
proof (intro conjI impI)
  show "hex_to_rgb s =
     (case (slice_value (take 2 (drop 1 s)), slice_value (take 2 (drop 3 s)),
            slice_value (take 2 (drop 5 s))) of
        (Some r, Some g, Some b) \<Rightarrow> Inr (r, g, b)
      | _ \<Rightarrow> Inl ValueError)"
    by (rule hex_to_rgb_slices)
next
  assume "valid_hex s"
  then show "\<exists>x1 x2 x3 x4 x5 x6.
       digit_value (s ! 1) = Some x1 \<and> digit_value (s ! 2) = Some x2 \<and>
       digit_value (s ! 3) = Some x3 \<and> digit_value (s ! 4) = Some x4 \<and>
       digit_value (s ! 5) = Some x5 \<and> digit_value (s ! 6) = Some x6 \<and>
       hex_to_rgb s = Inr (16 * x1 + x2, 16 * x3 + x4, 16 * x5 + x6)"
    by (rule hex_to_rgb_valid)
next
  assume "length s < 6"
  then have "slice_value (take 2 (drop 5 s)) = None" by simp
  then show "hex_to_rgb s = Inl ValueError"
    unfolding hex_to_rgb_slices by (simp split: option.splits)
next
  have "take 2 (drop 2 (take 6 (drop 1 s))) = take 2 (drop 3 s)"
    "take 2 (drop 4 (take 6 (drop 1 s))) = take 2 (drop 5 s)"
    "take 2 (take 6 (drop 1 s)) = take 2 (drop 1 s)"
    by (simp_all add: drop_take)
  then show "hex_to_rgb s = hex_to_rgb (c # take 6 (drop 1 s))"
    by (simp add: hex_to_rgb_def)
qed

theorem hex_to_rgb_reads_positions_1_to_6_witness:
  "hex_to_rgb (str ''#4287f5'') = Inr (66, 135, 245)
   \<and> hex_to_rgb (str ''#4287'') = Inl ValueError
   \<and> hex_to_rgb (str ''#f-0000'') = Inl ValueError
   \<and> hex_to_rgb (str ''x4287f5zz'') = hex_to_rgb (str ''#4287f5'')"
proof -
  have v: "valid_hex (str ''#4287f5'')" by (simp add: valid_hex_def digit_value_def str_def)
  have 1: "hex_to_rgb (str ''#4287f5'') = Inr (66, 135, 245)"
    using hex_to_rgb_reads_positions_1_to_6 [of "str ''#4287f5''" 35, THEN conjunct2, THEN conjunct1] v
    by (simp add: str_def digit_value_def)
  have 2: "hex_to_rgb (str ''#4287'') = Inl ValueError"
    using hex_to_rgb_reads_positions_1_to_6 [of "str ''#4287''" 35, THEN conjunct2, THEN conjunct2, THEN conjunct1]
    by (simp add: str_def)
  have 3: "hex_to_rgb (str ''#f-0000'') = Inl ValueError"
    using hex_to_rgb_reads_positions_1_to_6 [of "str ''#f-0000''" 35, THEN conjunct1]
    by (simp add: str_def hexval_def digit_value_def blank_def py_isspace_def unicode_space_def)
  have 4: "hex_to_rgb (str ''x4287f5zz'') = hex_to_rgb (str ''#4287f5'')"
    using hex_to_rgb_reads_positions_1_to_6 [of "str ''x4287f5zz''" 35, THEN conjunct2, THEN conjunct2, THEN conjunct2]
      hex_to_rgb_reads_positions_1_to_6 [of "str ''#4287f5''" 35, THEN conjunct2, THEN conjunct2, THEN conjunct2]
    by (simp add: str_def)
  show ?thesis using 1 2 3 4 by simp
qed

text \<open>
  C7, as stated, fails on float components, which is what every role colour has
  (\<^verbatim>\<open>rgb_to_hsl\<close> returns floats). A hue shift of \<open>2 ^ 1024\<close> on the hue 0.5 raises
  \<^verbatim>\<open>OverflowError\<close>, so the function is not total; and on the hue 0.1 the shifts 370 and 10
  give two different hues, 10.100000000000023 and 10.1, because the two sums are rounded
  differently.
\<close>

theorem adjust_hsl_float_counterexample:
  "adjust_hsl (PFloat (1 / 2), PFloat 50, PFloat 50) (2 ^ 1024) 0 0 = Inl OverflowError
   \<and> adjust_hsl (PFloat (rnd (1 / 10)), PFloat 50, PFloat 50) 370 0 0
       = Inr (PFloat (88840539524301 / 8796093022208), PFloat 50, PFloat 50)
   \<and> adjust_hsl (PFloat (rnd (1 / 10)), PFloat 50, PFloat 50) 10 0 0
       = Inr (PFloat (5685794529555251 / 562949953421312), PFloat 50, PFloat 50)
   \<and> (88840539524301 / 8796093022208 :: rat) \<noteq> 5685794529555251 / 562949953421312"
proof -
  have h: "hsl_color (PFloat (1 / 2), PFloat 50, PFloat 50)" by (simp add: hsl_color_def)
  have "adjust_hsl (PFloat (1 / 2), PFloat 50, PFloat 50) (2 ^ 1024) 0 0 = Inl OverflowError"
    by (simp only: adjust_hsl_color [OF h] too_large_pow is_float.simps simp_thms if_True)
  moreover have "adjust_hsl (PFloat (rnd (1 / 10)), PFloat 50, PFloat 50) 370 0 0
       = Inr (PFloat (88840539524301 / 8796093022208), PFloat 50, PFloat 50)"
    by code_simp
  moreover have "adjust_hsl (PFloat (rnd (1 / 10)), PFloat 50, PFloat 50) 10 0 0
       = Inr (PFloat (5685794529555251 / 562949953421312), PFloat 50, PFloat 50)"
    by code_simp
  moreover have "(88840539524301 / 8796093022208 :: rat) \<noteq> 5685794529555251 / 562949953421312"
    by simp
  ultimately show ?thesis by blast
qed

text \<open>
  C7, amended. On integer components \<^verbatim>\<open>adjust_hsl\<close> never fails and returns exactly
  \<open>((h + hs) mod 360, max 0 (min 100 (s + sa)), max 0 (min 100 (l + la)))\<close>, with the hue
  in \<open>[0, 360)\<close>, and a hue shift of 370 gives the same result as a shift of 10. On an
  HslColor with integer or float components (hue in \<open>[0, 360]\<close>, saturation and lightness in
  \<open>[0, 100]\<close>) it raises \<^verbatim>\<open>OverflowError\<close> exactly when a delta that is added to a float
  component is too large for a float, and in every other case returns the wrapped hue sum
  and the two clamped sums, the sums being those of Python's arithmetic: on a float
  component the delta is converted to a float and the sum is rounded, the hue is its
  remainder modulo 360 when the sum is not negative and the rounded remainder when it is
  negative, and the result is again an HslColor, the hue non-negative and at most 360. A
  saturation adjustment of 1000 gives the saturation 100 and a lightness adjustment of
  \<open>- 1000\<close> the lightness 0. No delta below \<open>2 ^ 1023\<close> in magnitude is too large.
\<close>

theorem adjust_hsl_wrap_clamp:
  "adjust_hsl (PInt h, PInt s, PInt l) hs sa la =
     Inr (PInt ((h + hs) mod 360), PInt (max 0 (min 100 (s + sa))), PInt (max 0 (min 100 (l + la))))
   \<and> 0 \<le> (h + hs) mod 360 \<and> (h + hs) mod 360 < 360
   \<and> adjust_hsl (PInt h, PInt s, PInt l) 370 sa la = adjust_hsl (PInt h, PInt s, PInt l) 10 sa la
   \<and> (hsl_color (a, b, c) \<longrightarrow>
        adjust_hsl (a, b, c) hs sa la =
          (if (is_float a \<and> too_large hs) \<or> (is_float b \<and> too_large sa)
              \<or> (is_float c \<and> too_large la)
           then Inl OverflowError
           else Inr (wrap_hue (delta_sum a hs), clamp (delta_sum b sa), clamp (delta_sum c la)))
        \<and> hsl_color (wrap_hue (delta_sum a hs), clamp (delta_sum b sa), clamp (delta_sum c la))
        \<and> clamp (delta_sum b 1000) = PInt 100
        \<and> clamp (delta_sum c (- 1000)) = PInt 0)
   \<and> (\<bar>n\<bar> < 2 ^ 1023 \<longrightarrow> \<not> too_large n)"
proof (intro conjI impI)
  show "adjust_hsl (PInt h, PInt s, PInt l) hs sa la =
     Inr (PInt ((h + hs) mod 360), PInt (max 0 (min 100 (s + sa))), PInt (max 0 (min 100 (l + la))))"
    by (rule adjust_hsl_int)
  show "0 \<le> (h + hs) mod 360" "(h + hs) mod 360 < 360" by simp_all
  show "adjust_hsl (PInt h, PInt s, PInt l) 370 sa la = adjust_hsl (PInt h, PInt s, PInt l) 10 sa la"
    by (rule adjust_hsl_int_hue_370)
  show "hsl_color (wrap_hue (delta_sum a hs), clamp (delta_sum b sa), clamp (delta_sum c la))"
    by (rule hsl_color_adjusted)
next
  assume "hsl_color (a, b, c)"
  then show "adjust_hsl (a, b, c) hs sa la =
          (if (is_float a \<and> too_large hs) \<or> (is_float b \<and> too_large sa)
              \<or> (is_float c \<and> too_large la)
           then Inl OverflowError
           else Inr (wrap_hue (delta_sum a hs), clamp (delta_sum b sa), clamp (delta_sum c la)))"
    by (rule adjust_hsl_color)
next
  assume "hsl_color (a, b, c)"
  then show "clamp (delta_sum b 1000) = PInt 100" "clamp (delta_sum c (- 1000)) = PInt 0"
    by (simp_all add: hsl_color_def saturation_1000 lightness_m1000)
next
  assume "\<bar>n\<bar> < 2 ^ 1023"
  then show "\<not> too_large n" by (rule not_too_large)
qed

theorem adjust_hsl_wrap_clamp_witness:
  "hsl_color (PFloat 10, PFloat 50, PInt 50) \<and> \<not> too_large 370
   \<and> adjust_hsl (PFloat 10, PFloat 50, PInt 50) 370 1000 (- 1000) = Inr (PFloat 20, PInt 100, PInt 0)
   \<and> adjust_hsl (PInt 350, PInt 90, PInt 5) 370 1000 (- 1000) = Inr (PInt 0, PInt 100, PInt 0)"
proof -
  have c: "hsl_color (PFloat 10, PFloat 50, PInt 50)" by (simp add: hsl_color_def)
  have n: "\<bar>370 :: int\<bar> < 2 ^ 1023" "\<bar>1000 :: int\<bar> < 2 ^ 1023" "\<bar>- 1000 :: int\<bar> < 2 ^ 1023"
    by simp_all
  have w: "wrap_hue (delta_sum (PFloat 10) 370) = PFloat 20" by code_simp
  note inst = adjust_hsl_wrap_clamp [where h = 350 and s = 90 and l = 5 and hs = 370 and sa = 1000
        and la = "- 1000" and a = "PFloat 10" and b = "PFloat 50" and c = "PInt 50"]
  have t: "\<not> too_large 370" "\<not> too_large 1000" "\<not> too_large (- 1000)"
    using inst [where n = 370] inst [where n = 1000] inst [where n = "- 1000"] n by blast+
  have "adjust_hsl (PFloat 10, PFloat 50, PInt 50) 370 1000 (- 1000) = Inr (PFloat 20, PInt 100, PInt 0)"
    using inst [where n = 370] c t w by simp
  moreover have "adjust_hsl (PInt 350, PInt 90, PInt 5) 370 1000 (- 1000) = Inr (PInt 0, PInt 100, PInt 0)"
    using inst [where n = 370, THEN conjunct1] by simp
  ultimately show ?thesis using c t by simp
qed

text \<open>
  C9. The surface group of a palette that \<^verbatim>\<open>generate_palette\<close> returns depends only on the
  mode. In light mode it is the rendering of the achromatic colours (hue 0, saturation 0) of
  lightness 95 (background), 10 (onSurface), 50 (onSurfaceVariant) and \<open>100 - 10\<close>
  (inverseOnSurface); in dark mode of lightness 20, 90, 50 and \<open>100 - 90\<close>. The variant is
  the same in every mode, and the light background renders as \<^verbatim>\<open>#f2f2f2\<close>.
\<close>

theorem surface_depends_only_on_mode:
  "(generate_palette c (str ''light'') h hs sa la = Inr pal \<longrightarrow>
      map_of pal (str ''surface'') = Some (Group
        [(str ''background'', str ''#f2f2f2''), (str ''onSurface'', str ''#191919''),
         (str ''onSurfaceVariant'', str ''#7f7f7f''), (str ''inverseOnSurface'', str ''#e5e5e5'')]))
   \<and> (generate_palette c (str ''dark'') h hs sa la = Inr pal \<longrightarrow>
      map_of pal (str ''surface'') = Some (Group
        [(str ''background'', str ''#333333''), (str ''onSurface'', str ''#e5e5e5''),
         (str ''onSurfaceVariant'', str ''#7f7f7f''), (str ''inverseOnSurface'', str ''#191919'')]))
   \<and> (generate_palette c mode h hs sa la = Inr pal
        \<and> generate_palette c' mode h' hs' sa' la' = Inr pal' \<longrightarrow>
      map_of pal (str ''surface'') = map_of pal' (str ''surface''))
   \<and> (generate_palette c mode h hs sa la = Inr pal \<longrightarrow>
      (\<exists>group. map_of pal (str ''surface'') = Some (Group group)
         \<and> map_of group (str ''onSurfaceVariant'') = Some (str ''#7f7f7f'')))
   \<and> hex_of_hsl (PInt 0, PInt 0, PInt 95) = Inr (str ''#f2f2f2'')
   \<and> hex_of_hsl (PInt 0, PInt 0, PInt 10) = Inr (str ''#191919'')
   \<and> hex_of_hsl (PInt 0, PInt 0, PInt 50) = Inr (str ''#7f7f7f'')
   \<and> hex_of_hsl (PInt 0, PInt 0, PInt (100 - 10)) = Inr (str ''#e5e5e5'')
   \<and> hex_of_hsl (PInt 0, PInt 0, PInt 20) = Inr (str ''#333333'')
   \<and> hex_of_hsl (PInt 0, PInt 0, PInt 90) = Inr (str ''#e5e5e5'')
   \<and> hex_of_hsl (PInt 0, PInt 0, PInt (100 - 90)) = Inr (str ''#191919'')"
proof (intro conjI impI)
  assume "generate_palette c (str ''light'') h hs sa la = Inr pal"
  then show "map_of pal (str ''surface'') = Some (Group
        [(str ''background'', str ''#f2f2f2''), (str ''onSurface'', str ''#191919''),
         (str ''onSurfaceVariant'', str ''#7f7f7f''), (str ''inverseOnSurface'', str ''#e5e5e5'')])"
    using generate_palette_surface [of c "str ''light''" h hs sa la pal]
    by (simp add: surface_colors_light)
next
  assume "generate_palette c (str ''dark'') h hs sa la = Inr pal"
  then show "map_of pal (str ''surface'') = Some (Group
        [(str ''background'', str ''#333333''), (str ''onSurface'', str ''#e5e5e5''),
         (str ''onSurfaceVariant'', str ''#7f7f7f''), (str ''inverseOnSurface'', str ''#191919'')])"
    using generate_palette_surface [of c "str ''dark''" h hs sa la pal]
    by (simp add: surface_colors_other key_facts)
next
  assume "generate_palette c mode h hs sa la = Inr pal
        \<and> generate_palette c' mode h' hs' sa' la' = Inr pal'"
  then show "map_of pal (str ''surface'') = map_of pal' (str ''surface'')"
    using generate_palette_surface [of c mode h hs sa la pal]
      generate_palette_surface [of c' mode h' hs' sa' la' pal'] by auto
next
  assume g: "generate_palette c mode h hs sa la = Inr pal"
  show "\<exists>group. map_of pal (str ''surface'') = Some (Group group)
         \<and> map_of group (str ''onSurfaceVariant'') = Some (str ''#7f7f7f'')"
  proof (cases "mode = str ''light''")
    case True
    have "map_of pal (str ''surface'') = Some (Group
        [(str ''background'', str ''#f2f2f2''), (str ''onSurface'', str ''#191919''),
         (str ''onSurfaceVariant'', str ''#7f7f7f''), (str ''inverseOnSurface'', str ''#e5e5e5'')])"
      using generate_palette_surface [OF g] True by (simp add: surface_colors_light)
    moreover have "map_of
        [(str ''background'', str ''#f2f2f2''), (str ''onSurface'', str ''#191919''),
         (str ''onSurfaceVariant'', str ''#7f7f7f''), (str ''inverseOnSurface'', str ''#e5e5e5'')]
        (str ''onSurfaceVariant'') = Some (str ''#7f7f7f'')"
      by (simp add: str_def)
    ultimately show ?thesis by blast
  next
    case False
    have "map_of pal (str ''surface'') = Some (Group
        [(str ''background'', str ''#333333''), (str ''onSurface'', str ''#e5e5e5''),
         (str ''onSurfaceVariant'', str ''#7f7f7f''), (str ''inverseOnSurface'', str ''#191919'')])"
      using generate_palette_surface [OF g] False by (simp add: surface_colors_other)
    moreover have "map_of
        [(str ''background'', str ''#333333''), (str ''onSurface'', str ''#e5e5e5''),
         (str ''onSurfaceVariant'', str ''#7f7f7f''), (str ''inverseOnSurface'', str ''#191919'')]
        (str ''onSurfaceVariant'') = Some (str ''#7f7f7f'')"
      by (simp add: str_def)
    ultimately show ?thesis by blast
  qed
qed (simp_all add: grey_levels)

theorem surface_depends_only_on_mode_witness:
  "(\<exists>pal. generate_palette (Seed (str ''#000000'')) (str ''light'') (str ''1'') 0 0 0 = Inr pal
      \<and> map_of pal (str ''surface'') = Some (Group
        [(str ''background'', str ''#f2f2f2''), (str ''onSurface'', str ''#191919''),
         (str ''onSurfaceVariant'', str ''#7f7f7f''), (str ''inverseOnSurface'', str ''#e5e5e5'')]))
   \<and> (\<exists>pal. generate_palette (Seed (str ''#000000'')) (str ''dark'') (str ''1'') 0 0 0 = Inr pal
      \<and> map_of pal (str ''surface'') = Some (Group
        [(str ''background'', str ''#333333''), (str ''onSurface'', str ''#e5e5e5''),
         (str ''onSurfaceVariant'', str ''#7f7f7f''), (str ''inverseOnSurface'', str ''#191919'')]))"
proof -
  obtain p1 where p1: "generate_palette (Seed (str ''#000000'')) (str ''light'') (str ''1'') 0 0 0 = Inr p1"
    using palette_black_light by blast
  obtain p2 where p2: "generate_palette (Seed (str ''#000000'')) (str ''dark'') (str ''1'') 0 0 0 = Inr p2"
    using palette_black_dark by blast
  note a = surface_depends_only_on_mode [where c = "Seed (str ''#000000'')" and h = "str ''1''"
      and hs = 0 and sa = 0 and la = 0 and pal = p1 and mode = "str ''light''"
      and c' = "Seed (str ''#000000'')" and h' = "str ''1''" and hs' = 0 and sa' = 0 and la' = 0
      and pal' = p1, THEN conjunct1]
  note b = surface_depends_only_on_mode [where c = "Seed (str ''#000000'')" and h = "str ''1''"
      and hs = 0 and sa = 0 and la = 0 and pal = p2 and mode = "str ''dark''"
      and c' = "Seed (str ''#000000'')" and h' = "str ''1''" and hs' = 0 and sa' = 0 and la' = 0
      and pal' = p2, THEN conjunct2, THEN conjunct1]
  show ?thesis using a b p1 p2 by blast
qed




end
